theory Spec2Isabelle
  imports Main "HOL-Library.Word" "HOL-Library.Code_Target_Numeral"
begin

section \<open>Package errors: error frames, error lists and NotFound\<close>

text \<open>
  A shallow embedding of \<^verbatim>\<open>src/errors/errors.go\<close>. Go strings are byte sequences, so a
  Go string is a \<^typ>\<open>string\<close> (a list of 8-bit characters) and \<open>length\<close> is Go's
  \<^verbatim>\<open>len\<close>. A run-time panic is a value of type \<open>panic\<close>; a computation that can panic
  returns \<open>panic + 'a\<close> with \<open>Inl\<close> for the panic.
\<close>

datatype panic =
    NilDereference        \<comment> \<open>invalid memory address or nil pointer dereference\<close>
  | InterfaceConversion   \<comment> \<open>a type assertion \<^verbatim>\<open>x.(T)\<close> without \<^verbatim>\<open>ok\<close> that fails\<close>
  | ValueError            \<comment> \<open>\<^verbatim>\<open>reflect.ValueError\<close>: a reflect method called on the wrong kind\<close>

type_synonym 'a result = "panic + 'a"

subsection \<open>The library functions the package calls\<close>

text \<open>
  \<^verbatim>\<open>strconv.AppendInt(dst, i, base)\<close> for the two bases the package uses (10 and 16):
  an optional minus sign and the digits of the magnitude, lower case.
\<close>

definition digits :: string where
  "digits = ''0123456789abcdefghijklmnopqrstuvwxyz''"

function formatBits :: "nat \<Rightarrow> nat \<Rightarrow> string" where
  "formatBits u base =
     (if base < 2 \<or> u < base then [digits ! u]
      else formatBits (u div base) base @ [digits ! (u mod base)])"
  by pat_completeness auto
termination
  by (relation "measure (\<lambda>(u, base). u)") auto

definition AppendInt :: "string \<Rightarrow> int \<Rightarrow> nat \<Rightarrow> string" where
  "AppendInt dst i base =
     dst @ (if i < 0 then ''-'' @ formatBits (nat (- i)) base else formatBits (nat i) base)"

text \<open>\<^verbatim>\<open>strings.Join(elems, sep)\<close>.\<close>

fun Join :: "string list \<Rightarrow> string \<Rightarrow> string" where
  "Join [] sep = []"
| "Join [e] sep = e"
| "Join (e # es) sep = e @ sep @ Join es sep"

text \<open>
  \<^verbatim>\<open>utf8.DecodeRuneInString\<close>: the first rune of a string and its width in bytes;
  \<open>(RuneError, 1)\<close> for a byte sequence that is not well-formed UTF-8. Runes are natural
  numbers, bytes are read with \<open>of_char\<close>; the masks of the Go code are written as \<open>mod\<close>.
\<close>

definition RuneError :: nat where
  "RuneError = 0xFFFD"

definition byte_at :: "string \<Rightarrow> nat \<Rightarrow> nat" where
  "byte_at s i = of_char (s ! i)"

definition DecodeRuneInString :: "string \<Rightarrow> nat \<times> nat" where
  "DecodeRuneInString s =
     (if length s < 1 then (RuneError, 0)
      else let s0 = byte_at s 0 in
        if s0 < 0x80 then (s0, 1)
        else if s0 < 0xC2 \<or> 0xF4 < s0 then (RuneError, 1)
        else
          let sz = (if s0 < 0xE0 then 2 else if s0 < 0xF0 then 3 else 4 :: nat);
              lo = (if s0 = 0xE0 then 0xA0 else if s0 = 0xF0 then 0x90 else 0x80 :: nat);
              hi = (if s0 = 0xED then 0x9F else if s0 = 0xF4 then 0x8F else 0xBF :: nat)
          in
            if length s < sz then (RuneError, 1)
            else let s1 = byte_at s 1 in
              if s1 < lo \<or> hi < s1 then (RuneError, 1)
              else if sz \<le> 2 then ((s0 mod 0x20) * 0x40 + s1 mod 0x40, 2)
              else let s2 = byte_at s 2 in
                if s2 < 0x80 \<or> 0xBF < s2 then (RuneError, 1)
                else if sz \<le> 3 then
                  ((s0 mod 0x10) * 0x1000 + (s1 mod 0x40) * 0x40 + s2 mod 0x40, 3)
                else let s3 = byte_at s 3 in
                  if s3 < 0x80 \<or> 0xBF < s3 then (RuneError, 1)
                  else ((s0 mod 0x08) * 0x40000 + (s1 mod 0x40) * 0x1000
                          + (s2 mod 0x40) * 0x40 + s3 mod 0x40, 4))"

text \<open>\<^verbatim>\<open>utf8.AppendRune\<close>: the UTF-8 encoding of a rune.\<close>

definition AppendRune :: "string \<Rightarrow> nat \<Rightarrow> string" where
  "AppendRune p r =
     (if r \<le> 0x7F then p @ [char_of r]
      else if r \<le> 0x7FF then p @ [char_of (0xC0 + r div 0x40), char_of (0x80 + r mod 0x40)]
      else
        let r = (if 0x10FFFF < r \<or> (0xD800 \<le> r \<and> r \<le> 0xDFFF) then RuneError else r) in
        if r \<le> 0xFFFF then
          p @ [char_of (0xE0 + r div 0x1000), char_of (0x80 + (r div 0x40) mod 0x40),
               char_of (0x80 + r mod 0x40)]
        else
          p @ [char_of (0xF0 + r div 0x40000), char_of (0x80 + (r div 0x1000) mod 0x40),
               char_of (0x80 + (r div 0x40) mod 0x40), char_of (0x80 + r mod 0x40)])"

text \<open>
  \<^verbatim>\<open>strconv.IsPrint\<close>. The Latin-1 range is decided by the code below, as in Go; above
  it Go searches the Unicode tables, which are the parameter \<open>U\<close> of the model.
\<close>

definition IsPrint :: "(nat \<Rightarrow> bool) \<Rightarrow> nat \<Rightarrow> bool" where
  "IsPrint U r =
     (if r \<le> 0xFF then
        (if 0x20 \<le> r \<and> r \<le> 0x7E then True
         else if 0xA1 \<le> r \<and> r \<le> 0xFF then r \<noteq> 0xAD
         else False)
      else U r)"

definition lowerhex :: string where
  "lowerhex = ''0123456789abcdef''"

text \<open>
  \<^verbatim>\<open>strconv.appendEscapedRune\<close> as \<^verbatim>\<open>AppendQuote\<close> calls it: the quote is the double
  quote, \<^verbatim>\<open>ASCIIonly\<close> and \<^verbatim>\<open>graphicOnly\<close> are false. This is the function of Go 1.19
  and later, which writes the rune U+007F as \<^verbatim>\<open>\x7f\<close>.
\<close>

definition appendEscapedRune :: "(nat \<Rightarrow> bool) \<Rightarrow> string \<Rightarrow> nat \<Rightarrow> string" where
  "appendEscapedRune U buf r =
     (if r = 0x22 \<or> r = 0x5C then buf @ [CHR 0x5C, char_of r]
      else if IsPrint U r then AppendRune buf r
      else if r = 0x07 then buf @ [CHR 0x5C, CHR ''a'']
      else if r = 0x08 then buf @ [CHR 0x5C, CHR ''b'']
      else if r = 0x0C then buf @ [CHR 0x5C, CHR ''f'']
      else if r = 0x0A then buf @ [CHR 0x5C, CHR ''n'']
      else if r = 0x0D then buf @ [CHR 0x5C, CHR ''r'']
      else if r = 0x09 then buf @ [CHR 0x5C, CHR ''t'']
      else if r = 0x0B then buf @ [CHR 0x5C, CHR ''v'']
      else if r < 0x20 \<or> r = 0x7F then
        buf @ [CHR 0x5C, CHR ''x'', lowerhex ! (r div 16), lowerhex ! (r mod 16)]
      else
        let r = (if 0x10FFFF < r \<or> (0xD800 \<le> r \<and> r \<le> 0xDFFF) then RuneError else r) in
        if r < 0x10000 then
          buf @ [CHR 0x5C, CHR ''u''] @ map (\<lambda>s. lowerhex ! ((r div 2 ^ s) mod 16)) [12, 8, 4, 0]
        else
          buf @ [CHR 0x5C, CHR ''U'']
              @ map (\<lambda>s. lowerhex ! ((r div 2 ^ s) mod 16)) [28, 24, 20, 16, 12, 8, 4, 0])"

text \<open>
  The loop of \<^verbatim>\<open>strconv.appendQuotedWith\<close>: one rune per round; a byte that does not start
  a well-formed rune is written as \<^verbatim>\<open>\xNN\<close>.
\<close>

fun quoteLoop :: "(nat \<Rightarrow> bool) \<Rightarrow> string \<Rightarrow> string \<Rightarrow> string" where
  "quoteLoop U buf [] = buf"
| "quoteLoop U buf (c # cs) =
     (let (r, width) = (if of_char c < (0x80 :: nat) then (of_char c, 1)
                        else DecodeRuneInString (c # cs)) in
      if width = 1 \<and> r = RuneError then
        quoteLoop U (buf @ [CHR 0x5C, CHR ''x'', lowerhex ! (of_char c div 16),
                            lowerhex ! (of_char c mod 16)]) cs
      else quoteLoop U (appendEscapedRune U buf r) (drop (width - 1) cs))"

definition AppendQuote :: "(nat \<Rightarrow> bool) \<Rightarrow> string \<Rightarrow> string \<Rightarrow> string" where
  "AppendQuote U dst s = quoteLoop U (dst @ [CHR 0x22]) s @ [CHR 0x22]"

subsection \<open>Argument values and the value renderer\<close>

text \<open>
  \<^verbatim>\<open>reflect.Kind\<close>, in the order of its declaration; \<open>kind_num\<close> is the number of a
  kind, which the range test of \<^verbatim>\<open>appendValue\<close> compares.
\<close>

datatype kind =
    reflect_Invalid | reflect_Bool | reflect_Int | reflect_Int8 | reflect_Int16
  | reflect_Int32 | reflect_Int64 | reflect_Uint | reflect_Uint8 | reflect_Uint16
  | reflect_Uint32 | reflect_Uint64 | reflect_Uintptr | reflect_Float32 | reflect_Float64
  | reflect_Complex64 | reflect_Complex128 | reflect_Array | reflect_Chan | reflect_Func
  | reflect_Interface | reflect_Map | reflect_Pointer | reflect_Slice | reflect_String
  | reflect_Struct | reflect_UnsafePointer

fun kind_num :: "kind \<Rightarrow> nat" where
  "kind_num reflect_Invalid = 0"
| "kind_num reflect_Bool = 1"
| "kind_num reflect_Int = 2"
| "kind_num reflect_Int8 = 3"
| "kind_num reflect_Int16 = 4"
| "kind_num reflect_Int32 = 5"
| "kind_num reflect_Int64 = 6"
| "kind_num reflect_Uint = 7"
| "kind_num reflect_Uint8 = 8"
| "kind_num reflect_Uint16 = 9"
| "kind_num reflect_Uint32 = 10"
| "kind_num reflect_Uint64 = 11"
| "kind_num reflect_Uintptr = 12"
| "kind_num reflect_Float32 = 13"
| "kind_num reflect_Float64 = 14"
| "kind_num reflect_Complex64 = 15"
| "kind_num reflect_Complex128 = 16"
| "kind_num reflect_Array = 17"
| "kind_num reflect_Chan = 18"
| "kind_num reflect_Func = 19"
| "kind_num reflect_Interface = 20"
| "kind_num reflect_Map = 21"
| "kind_num reflect_Pointer = 22"
| "kind_num reflect_Slice = 23"
| "kind_num reflect_String = 24"
| "kind_num reflect_Struct = 25"
| "kind_num reflect_UnsafePointer = 26"

text \<open>
  A non-nil \<^verbatim>\<open>interface{}\<close> value, described by what \<^verbatim>\<open>appendValue\<close> can observe of it:
  \<^item> \<open>Kind\<close>: \<^verbatim>\<open>reflect.ValueOf(arg).Kind()\<close>, the kind of its dynamic type;
  \<^item> \<open>AsString\<close>: the result of the type assertion \<^verbatim>\<open>arg.(string)\<close>: \<open>Some s\<close> when the dynamic
    type is the predeclared type \<^verbatim>\<open>string\<close>, \<open>None\<close> for every other dynamic type, also
    for a defined type such as \<^verbatim>\<open>type Name string\<close>, whose kind is \<^verbatim>\<open>reflect.String\<close>;
  \<^item> \<open>Sprint\<close>: the text \<^verbatim>\<open>fmt.Sprint(arg)\<close> returns;
  \<^item> \<open>Pointer\<close>: the address \<^verbatim>\<open>reflect.ValueOf(arg).Pointer()\<close> returns for a value of a
    reference kind, a \<^verbatim>\<open>uintptr\<close> (64 bits).
  An argument of a frame is a \<open>Value option\<close>, \<open>None\<close> being the nil interface.
\<close>

record Value =
  Kind :: kind
  AsString :: "string option"
  Sprint :: string
  Pointer :: "64 word"

text \<open>
  The values Go can build: \<^verbatim>\<open>reflect.ValueOf\<close> of a non-nil interface never has the kind
  \<^verbatim>\<open>Invalid\<close> or \<^verbatim>\<open>Interface\<close>, and only a value of kind \<^verbatim>\<open>String\<close> can have the type
  \<^verbatim>\<open>string\<close>.
\<close>

definition go_value :: "Value \<Rightarrow> bool" where
  "go_value v \<longleftrightarrow>
     Kind v \<noteq> reflect_Invalid \<and> Kind v \<noteq> reflect_Interface
     \<and> (AsString v \<noteq> None \<longrightarrow> Kind v = reflect_String)"

text \<open>Some Go values: an \<^verbatim>\<open>int\<close>, a \<^verbatim>\<open>string\<close>, and a value of a defined string type.\<close>

definition int_value :: "int \<Rightarrow> Value" where
  "int_value i =
     \<lparr>Kind = reflect_Int, AsString = None, Sprint = AppendInt [] i 10, Pointer = 0\<rparr>"

definition string_value :: "string \<Rightarrow> Value" where
  "string_value s = \<lparr>Kind = reflect_String, AsString = Some s, Sprint = s, Pointer = 0\<rparr>"

definition named_string_value :: "string \<Rightarrow> Value" where
  "named_string_value s = \<lparr>Kind = reflect_String, AsString = None, Sprint = s, Pointer = 0\<rparr>"

text \<open>
  \<^verbatim>\<open>reflect.Value.Pointer\<close> panics unless the kind is one of the reference kinds.
\<close>

definition Value_Pointer :: "Value \<Rightarrow> 64 word result" where
  "Value_Pointer v =
     (if Kind v \<in> {reflect_Chan, reflect_Func, reflect_Map, reflect_Pointer, reflect_Slice,
                   reflect_UnsafePointer}
      then Inr (Pointer v) else Inl ValueError)"

text \<open>\<^verbatim>\<open>appendValue\<close> (lines 207 to 232).\<close>

fun appendValue :: "(nat \<Rightarrow> bool) \<Rightarrow> string \<Rightarrow> Value option \<Rightarrow> string result" where
  "appendValue U b None = Inr (b @ ''nil'')"
| "appendValue U b (Some v) =
     (let kind = Kind v in
      if kind_num reflect_Bool \<le> kind_num kind \<and> kind_num kind \<le> kind_num reflect_Complex128
      then Inr (b @ Sprint v)
      else if kind = reflect_String then
        (case AsString v of
           None \<Rightarrow> Inl InterfaceConversion
         | Some val \<Rightarrow>
             let val = (if length val > 32
                        then take 16 val @ ''...'' @ drop (length val - 16) val else val)
             in Inr (AppendQuote U b val))
      else if kind = reflect_Array then Inr (b @ ''Array'')
      else if kind = reflect_Struct then Inr (b @ ''Struct'')
      else
        (case Value_Pointer v of
           Inl p \<Rightarrow> Inl p
         | Inr val \<Rightarrow> Inr (AppendInt (b @ ''0x'') (sint val) 16)))"

text \<open>
  \<^verbatim>\<open>argsDetail\<close> (lines 196 to 205): the loop over the arguments, \<open>i\<close> the index of the
  first of the arguments still to render and \<open>nlast\<close> the index of the last argument.
\<close>

fun argsLoop :: "(nat \<Rightarrow> bool) \<Rightarrow> int \<Rightarrow> string \<Rightarrow> int \<Rightarrow> Value option list \<Rightarrow> string result"
  where
  "argsLoop U nlast b i [] = Inr b"
| "argsLoop U nlast b i (arg # args) =
     (case appendValue U b arg of
        Inl p \<Rightarrow> Inl p
      | Inr b \<Rightarrow> argsLoop U nlast (if i \<noteq> nlast then b @ '', '' else b) (i + 1) args)"

definition argsDetail :: "(nat \<Rightarrow> bool) \<Rightarrow> string \<Rightarrow> Value option list \<Rightarrow> string result" where
  "argsDetail U b args = argsLoop U (int (length args) - 1) b 0 args"

subsection \<open>Errors, frames and the heap\<close>

text \<open>\<^verbatim>\<open>type NotFound struct { Category string }\<close>.\<close>

record NotFound =
  Category :: string

text \<open>
  A value of the interface type \<^verbatim>\<open>error\<close>:
  \<^item> \<open>nil\<close>, the nil interface;
  \<^item> \<open>FramePtr p\<close>, a \<^verbatim>\<open>*Frame\<close>: frames live in the heap, because a frame refers to its
    cause and the functions below follow these references; \<open>p\<close> is the address of the
    frame, and an address with no frame in the heap is the nil pointer;
  \<^item> \<open>NotFoundPtr q\<close>, a \<^verbatim>\<open>*NotFound\<close>: \<open>Some\<close> of the struct pointed to, \<open>None\<close> for a nil
    pointer;
  \<^item> \<open>ListVal p\<close>, a \<^verbatim>\<open>List\<close>, the slice of its elements;
  \<^item> \<open>Foreign msg summary unwrap\<close>, a value of an error type declared outside this package,
    described by its methods: \<^verbatim>\<open>Error()\<close> returns \<open>msg\<close>; \<open>summary\<close> is \<open>Some s\<close> when the
    type has a method \<^verbatim>\<open>Summary() string\<close>, which returns \<open>s\<close>; \<open>unwrap\<close> is \<open>Some e\<close> when
    the type has a method \<^verbatim>\<open>Unwrap() error\<close>, which returns \<open>e\<close>.
  The methods \<^verbatim>\<open>Format\<close>, which write to a \<^verbatim>\<open>fmt.State\<close>, and the functions kept for
  backward compatibility (lines 267 to 317) are not modelled.
\<close>

type_synonym addr = nat

datatype error =
    nil
  | Foreign string "string option" "error option"
  | NotFoundPtr "NotFound option"
  | FramePtr addr
  | ListVal "error list"

text \<open>\<^verbatim>\<open>type Frame struct\<close> (lines 143 to 150); \<^verbatim>\<open>Line\<close> is a Go \<^verbatim>\<open>int\<close>, 64 bits.\<close>

record Frame =
  Err :: error
  Func :: string
  Args :: "Value option list"
  Code :: string
  File :: string
  Line :: "64 word"

type_synonym heap = "addr \<Rightarrow> Frame option"

text \<open>\<^verbatim>\<open>New\<close> (lines 34 to 36): \<^verbatim>\<open>errors.New\<close> has the method \<^verbatim>\<open>Error\<close> only.\<close>

definition New :: "string \<Rightarrow> error" where
  "New msg = Foreign msg None None"

text \<open>
  \<^verbatim>\<open>NewWith\<close> (lines 153 to 156) and \<^verbatim>\<open>NewFrame\<close> (lines 164 to 166): the struct of the new
  frame, which the caller's heap holds at a new address. \<^verbatim>\<open>NewWith\<close> asks the run-time
  system for the file and the line of its caller (\<^verbatim>\<open>fileLine\<close>, lines 158 to 161); they
  are the parameter \<open>caller\<close> here. The sum \<^verbatim>\<open>line + n\<close> of two Go \<^verbatim>\<open>int\<close> wraps.
\<close>

definition NewWith ::
  "string \<times> 64 word \<Rightarrow> error \<Rightarrow> string \<Rightarrow> 64 word \<Rightarrow> string \<Rightarrow> Value option list \<Rightarrow> Frame"
  where
  "NewWith caller err code n fn args =
     (let (file, line) = caller in
      \<lparr>Err = err, Func = fn, Args = args, Code = code, File = file, Line = line + n\<rparr>)"

definition NewFrame ::
  "error \<Rightarrow> string \<Rightarrow> string \<Rightarrow> 64 word \<Rightarrow> string \<Rightarrow> Value option list \<Rightarrow> Frame" where
  "NewFrame err code file line fn args =
     \<lparr>Err = err, Func = fn, Args = args, Code = code, File = file, Line = line\<rparr>"

text \<open>
  A function that follows the references of the heap takes the heap \<open>h\<close>, and returns
  \<open>None\<close> when the Go function does not return, \<open>Some (Inl p)\<close> when it panics,
  \<open>Some (Inr x)\<close> when it returns \<open>x\<close>.
\<close>

definition ret :: "'a \<Rightarrow> 'a result option" where
  "ret x = Some (Inr x)"

definition and_then :: "'a result option \<Rightarrow> ('a \<Rightarrow> 'b result option) \<Rightarrow> 'b result option"
  where
  "and_then m f = (case m of None \<Rightarrow> None | Some (Inl p) \<Rightarrow> Some (Inl p) | Some (Inr x) \<Rightarrow> f x)"

text \<open>A \<^verbatim>\<open>range\<close> loop that stores \<open>f v\<close> for every element \<open>v\<close>, in order.\<close>

fun for_each :: "('a \<Rightarrow> 'b result option) \<Rightarrow> 'a list \<Rightarrow> 'b list result option" where
  "for_each f [] = ret []"
| "for_each f (v # vs) = and_then (f v) (\<lambda>y. and_then (for_each f vs) (\<lambda>ys. ret (y # ys)))"

text \<open>
  \<^verbatim>\<open>Err\<close> (lines 39 to 44), named \<open>Err_func\<close> because \<open>Err\<close> is the field of a
  frame.
\<close>

partial_function (option) Err_func :: "heap \<Rightarrow> error \<Rightarrow> error result option" where
  "Err_func h err =
     (case err of
        FramePtr e \<Rightarrow>
          (case h e of None \<Rightarrow> Some (Inl NilDereference) | Some fr \<Rightarrow> Err_func h (Err fr))
      | _ \<Rightarrow> Some (Inr err))"

declare Err_func.simps [code]

text \<open>\<^verbatim>\<open>(*NotFound).Error\<close> (lines 64 to 66).\<close>

definition NotFound_Error :: "NotFound option \<Rightarrow> string result" where
  "NotFound_Error p =
     (case p of None \<Rightarrow> Inl NilDereference | Some nf \<Rightarrow> Inr (Category nf @ '' not found''))"

text \<open>\<^verbatim>\<open>(*Frame).Unwrap\<close> (lines 235 to 237).\<close>

definition Frame_Unwrap :: "heap \<Rightarrow> addr \<Rightarrow> error result" where
  "Frame_Unwrap h p = (case h p of None \<Rightarrow> Inl NilDereference | Some fr \<Rightarrow> Inr (Err fr))"

text \<open>
  The type assertion \<^verbatim>\<open>err.(interface{ Unwrap() error })\<close> followed by the call of
  \<^verbatim>\<open>Unwrap\<close>: \<open>None\<close> when the dynamic type of \<open>err\<close> has no such method.
\<close>

fun Unwrap :: "heap \<Rightarrow> error \<Rightarrow> error result option" where
  "Unwrap h (FramePtr p) = Some (Frame_Unwrap h p)"
| "Unwrap h (Foreign msg summary (Some e)) = Some (Inr e)"
| "Unwrap h err = None"

text \<open>The type assertion \<^verbatim>\<open>err.(*NotFound)\<close>.\<close>

fun is_NotFound :: "error \<Rightarrow> bool" where
  "is_NotFound (NotFoundPtr q) = True"
| "is_NotFound err = False"

text \<open>\<^verbatim>\<open>IsNotFound\<close> (lines 69 to 78).\<close>

partial_function (option) IsNotFound :: "heap \<Rightarrow> error \<Rightarrow> bool result option" where
  "IsNotFound h err =
     (case Unwrap h err of
        Some (Inl p) \<Rightarrow> Some (Inl p)
      | Some (Inr e) \<Rightarrow> IsNotFound h e
      | None \<Rightarrow> Some (Inr (is_NotFound err)))"

declare IsNotFound.simps [code]

text \<open>\<^verbatim>\<open>(*List).Add\<close> (lines 84 to 86) and \<^verbatim>\<open>List.ToError\<close> (lines 118 to 126).\<close>

definition List_Add :: "error list \<Rightarrow> error \<Rightarrow> error list" where
  "List_Add p err = p @ [err]"

definition List_ToError :: "error list \<Rightarrow> error" where
  "List_ToError p =
     (if length p = 1 then p ! 0
      else if length p = 0 then nil
      else ListVal p)"

text \<open>
  The rendering functions call each other through the heap, so they take fuel \<open>k\<close>, the
  depth of calls they may still make: with no fuel left the result is \<open>None\<close>.

  \<open>Error\<close> is the method call \<^verbatim>\<open>err.Error()\<close> on an interface value; \<open>Frame_Error\<close> is
  \<^verbatim>\<open>(*Frame).Error\<close> (lines 168 to 170), \<open>errorDetail\<close> lines 176 to 194 and \<open>List_Error\<close>
  \<^verbatim>\<open>List.Error\<close> (lines 88 to 101).
\<close>

definition banner :: string where
  "banner = [CHR 0x0A, CHR 0x0A] @ ''===> errors stack:'' @ [CHR 0x0A]"

fun Error :: "(nat \<Rightarrow> bool) \<Rightarrow> heap \<Rightarrow> nat \<Rightarrow> error \<Rightarrow> string result option"
  and Frame_Error :: "(nat \<Rightarrow> bool) \<Rightarrow> heap \<Rightarrow> nat \<Rightarrow> addr \<Rightarrow> string result option"
  and errorDetail :: "(nat \<Rightarrow> bool) \<Rightarrow> heap \<Rightarrow> nat \<Rightarrow> string \<Rightarrow> addr \<Rightarrow> string result option"
  and List_Error :: "(nat \<Rightarrow> bool) \<Rightarrow> heap \<Rightarrow> nat \<Rightarrow> error list \<Rightarrow> string result option"
  where
  "Error U h 0 err = None"
| "Error U h (Suc k) err =
     (case err of
        nil \<Rightarrow> Some (Inl NilDereference)
      | Foreign msg summary unwrap \<Rightarrow> ret msg
      | NotFoundPtr q \<Rightarrow> Some (NotFound_Error q)
      | FramePtr p \<Rightarrow> Frame_Error U h k p
      | ListVal p \<Rightarrow> List_Error U h k p)"
| "Frame_Error U h 0 p = None"
| "Frame_Error U h (Suc k) p = errorDetail U h k [] p"
| "errorDetail U h 0 b p = None"
| "errorDetail U h (Suc k) b p =
     (case h p of
        None \<Rightarrow> Some (Inl NilDereference)
      | Some fr \<Rightarrow>
          and_then
            (case Err fr of
               FramePtr f \<Rightarrow> errorDetail U h k b f
             | _ \<Rightarrow> and_then (Error U h k (Err fr)) (\<lambda>msg. ret (b @ msg @ banner)))
            (\<lambda>b. and_then (Some (argsDetail U (b @ Func fr @ ''('') (Args fr)))
              (\<lambda>b. ret (AppendInt (b @ '')'' @ [CHR 0x0A, CHR 0x09] @ File fr @ '':'')
                              (sint (Line fr)) 10
                         @ '' '' @ Code fr @ [CHR 0x0A]))))"
| "List_Error U h 0 p = None"
| "List_Error U h (Suc k) p =
     (let n = length p in
      if n \<ge> 2 then and_then (for_each (Error U h k) p) (\<lambda>s. ret (Join s [CHR 0x0A]))
      else if n = 1 then Error U h k (p ! 0)
      else ret [])"

text \<open>
  \<open>Summary\<close> is the function \<^verbatim>\<open>Summary\<close> (lines 47 to 55): of the types above, \<^verbatim>\<open>*Frame\<close>,
  \<^verbatim>\<open>List\<close> and a foreign type with \<open>summary = Some s\<close> have the method \<^verbatim>\<open>Summary\<close>.
  \<open>Frame_Summary\<close> is \<^verbatim>\<open>(*Frame).Summary\<close> (lines 172 to 174), \<open>List_Summary\<close> is
  \<^verbatim>\<open>List.Summary\<close> (lines 103 to 116).
\<close>

fun Summary :: "(nat \<Rightarrow> bool) \<Rightarrow> heap \<Rightarrow> nat \<Rightarrow> error \<Rightarrow> string result option"
  and Frame_Summary :: "(nat \<Rightarrow> bool) \<Rightarrow> heap \<Rightarrow> nat \<Rightarrow> addr \<Rightarrow> string result option"
  and List_Summary :: "(nat \<Rightarrow> bool) \<Rightarrow> heap \<Rightarrow> nat \<Rightarrow> error list \<Rightarrow> string result option"
  where
  "Summary U h 0 err = None"
| "Summary U h (Suc k) err =
     (case err of
        FramePtr p \<Rightarrow> Frame_Summary U h k p
      | ListVal p \<Rightarrow> List_Summary U h k p
      | Foreign msg (Some s) unwrap \<Rightarrow> ret s
      | _ \<Rightarrow> Error U h k err)"
| "Frame_Summary U h 0 p = None"
| "Frame_Summary U h (Suc k) p =
     (case h p of None \<Rightarrow> Some (Inl NilDereference) | Some fr \<Rightarrow> Summary U h k (Err fr))"
| "List_Summary U h 0 p = None"
| "List_Summary U h (Suc k) p =
     (let n = length p in
      if n \<ge> 2 then and_then (for_each (Summary U h k) p) (\<lambda>s. ret (Join s [CHR 0x0A]))
      else if n = 1 then Summary U h k (p ! 0)
      else ret [])"

subsection \<open>Notions used to state the properties\<close>

text \<open>The type assertion \<^verbatim>\<open>err.(*Frame)\<close>.\<close>

fun is_Frame :: "error \<Rightarrow> bool" where
  "is_Frame (FramePtr p) = True"
| "is_Frame err = False"

text \<open>
  \<open>frame_chain h e frs leaf\<close>: the error \<open>e\<close> is the error \<open>leaf\<close>, which is not a frame,
  wrapped in the frames \<open>frs\<close> of the heap, the innermost frame first and the outermost
  frame, the one \<open>e\<close> points to, last.
\<close>

inductive frame_chain :: "heap \<Rightarrow> error \<Rightarrow> Frame list \<Rightarrow> error \<Rightarrow> bool" for h where
  leaf: "\<not> is_Frame leaf \<Longrightarrow> frame_chain h leaf [] leaf"
| wrap: "h p = Some fr \<Longrightarrow> frame_chain h (Err fr) frs leaf \<Longrightarrow>
         frame_chain h (FramePtr p) (frs @ [fr]) leaf"

text \<open>
  The tokens \<open>toks\<close> are the rendered arguments of a frame, and \<open>stack_entry fr toks\<close> is
  the stack entry of the frame as the specification describes it: the function name, the
  arguments joined with a comma and a space in parentheses, a newline and a tab, the file,
  a colon, the line, a space, the code and a newline.
\<close>

definition rendered :: "(nat \<Rightarrow> bool) \<Rightarrow> Frame \<Rightarrow> string list \<Rightarrow> bool" where
  "rendered U fr toks \<longleftrightarrow> list_all2 (\<lambda>a t. appendValue U [] a = Inr t) (Args fr) toks"

definition stack_entry :: "Frame \<Rightarrow> string list \<Rightarrow> string" where
  "stack_entry fr toks =
     Func fr @ ''('' @ Join toks '', '' @ '')'' @ [CHR 0x0A, CHR 0x09] @ File fr @ '':''
       @ AppendInt [] (sint (Line fr)) 10 @ '' '' @ Code fr @ [CHR 0x0A]"

text \<open>
  The two halves of the body of \<open>errorDetail\<close>: the detail of the cause (lines 177 to
  182) and the entry of the frame itself (lines 183 to 193).
\<close>

definition cause_detail :: "(nat \<Rightarrow> bool) \<Rightarrow> heap \<Rightarrow> nat \<Rightarrow> string \<Rightarrow> Frame \<Rightarrow> string result option" where
  "cause_detail U h k b fr =
     (case Err fr of
        FramePtr f \<Rightarrow> errorDetail U h k b f
      | _ \<Rightarrow> and_then (Error U h k (Err fr)) (\<lambda>msg. ret (b @ msg @ banner)))"

definition own_entry :: "(nat \<Rightarrow> bool) \<Rightarrow> Frame \<Rightarrow> string \<Rightarrow> string result option" where
  "own_entry U fr b =
     and_then (Some (argsDetail U (b @ Func fr @ ''('') (Args fr)))
       (\<lambda>b. ret (AppendInt (b @ '')'' @ [CHR 0x0A, CHR 0x09] @ File fr @ '':'')
                       (sint (Line fr)) 10
                  @ '' '' @ Code fr @ [CHR 0x0A]))"

text \<open>
  The dynamic types with a method \<^verbatim>\<open>Summary\<close>, and the summary of a leaf as the
  specification describes it: its own \<^verbatim>\<open>Summary\<close> if it has the method, its message
  otherwise.
\<close>

fun has_Summary :: "error \<Rightarrow> bool" where
  "has_Summary (FramePtr p) = True"
| "has_Summary (ListVal l) = True"
| "has_Summary (Foreign msg (Some s) unwrap) = True"
| "has_Summary err = False"

definition leaf_Summary :: "(nat \<Rightarrow> bool) \<Rightarrow> heap \<Rightarrow> nat \<Rightarrow> error \<Rightarrow> string result option" where
  "leaf_Summary U h k leaf =
     (case leaf of
        ListVal l \<Rightarrow> List_Summary U h k l
      | Foreign msg (Some s) unwrap \<Rightarrow> ret s
      | _ \<Rightarrow> Error U h k leaf)"

text \<open>
  \<open>unwraps_to h err final\<close>: calling \<^verbatim>\<open>Unwrap\<close> as long as the value has the method leads
  from \<open>err\<close> to \<open>final\<close>, which has no such method.
\<close>

inductive unwraps_to :: "heap \<Rightarrow> error \<Rightarrow> error \<Rightarrow> bool" for h where
  final: "Unwrap h err = None \<Longrightarrow> unwraps_to h err err"
| step: "Unwrap h err = Some (Inr e) \<Longrightarrow> unwraps_to h e final \<Longrightarrow> unwraps_to h err final"

text \<open>
  The frames an error value refers to when it is rendered (itself, or the elements of a
  list), and the relation between a frame and the frames its cause refers to. The cause
  chains of a heap are acyclic when this relation is; \<open>grounded h e\<close> says that every chain
  of causes that starts at \<open>e\<close> ends.
\<close>

fun frame_refs :: "error \<Rightarrow> addr set" where
  "frame_refs (FramePtr p) = {p}"
| "frame_refs (ListVal l) = (\<Union>e \<in> set l. frame_refs e)"
| "frame_refs err = {}"

definition cause_rel :: "heap \<Rightarrow> (addr \<times> addr) set" where
  "cause_rel h = {(q, p). \<exists>fr. h p = Some fr \<and> q \<in> frame_refs (Err fr)}"

inductive grounded :: "heap \<Rightarrow> error \<Rightarrow> bool" for h where
  g_nil: "grounded h nil"
| g_Foreign: "grounded h (Foreign msg summary unwrap)"
| g_NotFound: "grounded h (NotFoundPtr q)"
| g_nilptr: "h p = None \<Longrightarrow> grounded h (FramePtr p)"
| g_Frame: "h p = Some fr \<Longrightarrow> grounded h (Err fr) \<Longrightarrow> grounded h (FramePtr p)"
| g_List: "(\<forall>e \<in> set l. grounded h e) \<Longrightarrow> grounded h (ListVal l)"

text \<open>
  The text of a string argument that is quoted, as the specification describes it, and
  the characters that are quoted as themselves: printable ASCII other than the double
  quote and the backslash.
\<close>

definition abbreviated :: "string \<Rightarrow> string" where
  "abbreviated s = (if 32 < length s then take 16 s @ ''...'' @ drop (length s - 16) s else s)"

definition plain :: "char \<Rightarrow> bool" where
  "plain c \<longleftrightarrow> 0x20 \<le> (of_char c :: nat) \<and> (of_char c :: nat) \<le> 0x7E \<and> c \<noteq> CHR 0x22 \<and> c \<noteq> CHR 0x5C"

subsection \<open>Example values\<close>

text \<open>
  A table of printable runes with nothing above Latin-1, and a heap with two chains: frame
  2 wraps frame 1, which wraps \<^verbatim>\<open>New("disk full")\<close> (frame 1 is the frame of the example of
  the specification, made at the line 17 of a file \<^verbatim>\<open>blk.go\<close>); frame 4 wraps frame 3, which wraps a
  \<^verbatim>\<open>*NotFound\<close>. \<open>wrapped_NotFound\<close> is an error of a foreign type whose \<^verbatim>\<open>Unwrap\<close> returns a
  \<^verbatim>\<open>*NotFound\<close>, as \<^verbatim>\<open>fmt.Errorf("get key: %w", err)\<close> builds it.
\<close>

definition latin1_only :: "nat \<Rightarrow> bool" where
  "latin1_only r = False"

definition frame1 :: Frame where
  "frame1 = NewWith (''blk.go'', 17) (New ''disk full'') ''ENOSPC'' 0 ''writeBlock''
              [Some (int_value 42), Some (string_value ''cache'')]"

definition frame2 :: Frame where
  "frame2 = NewFrame (FramePtr 1) ''retry'' ''main.go'' 40 ''flush'' [None]"

definition frame3 :: Frame where
  "frame3 = NewFrame (NotFoundPtr (Some \<lparr>Category = ''key''\<rparr>)) ''get'' ''kv.go'' 8 ''lookup'' []"

definition frame4 :: Frame where
  "frame4 = NewFrame (FramePtr 3) ''serve'' ''http.go'' 99 ''handle'' []"

definition example_heap :: heap where
  "example_heap =
     (\<lambda>p. if p = 1 then Some frame1 else if p = 2 then Some frame2
          else if p = 3 then Some frame3 else if p = 4 then Some frame4 else None)"

definition wrapped_NotFound :: error where
  "wrapped_NotFound = Foreign ''get key: key not found'' None (Some (NotFoundPtr (Some \<lparr>Category = ''key''\<rparr>)))"

text \<open>
  A heap with one frame over \<^verbatim>\<open>New("e")\<close> whose argument is a value of a defined string
  type, as \<^verbatim>\<open>NewFrame(New("e"), "c", "f.go", 1, "fn", Name("x"))\<close> with
  \<^verbatim>\<open>type Name string\<close> builds it.
\<close>

definition name_frame :: Frame where
  "name_frame = NewFrame (New ''e'') ''c'' ''f.go'' 1 ''fn'' [Some (named_string_value ''x'')]"

definition name_heap :: heap where
  "name_heap = (\<lambda>p. if p = 1 then Some name_frame else None)"

section \<open>Properties\<close>

subsection \<open>The result monad and the fuel\<close>

lemma and_then_simps:
  "and_then None f = None"
  "and_then (Some (Inl p)) f = Some (Inl p)"
  "and_then (Some (Inr x)) f = f x"
  "and_then (ret x) f = f x"
  by (simp_all add: and_then_def ret_def)

lemma and_then_mono:
  "and_then m f = Some r \<Longrightarrow> (\<And>x. m = Some x \<Longrightarrow> m' = Some x) \<Longrightarrow> and_then m' f = Some r"
  by (cases m) (simp_all add: and_then_def)

lemma and_then_Some:
  "m = Some x \<Longrightarrow> (\<And>y. \<exists>r. f y = Some r) \<Longrightarrow> \<exists>r. and_then m f = Some r"
  by (cases x) (simp_all add: and_then_simps)

lemma for_each_mono:
  "for_each f xs = Some r \<Longrightarrow> (\<And>x y. x \<in> set xs \<Longrightarrow> f x = Some y \<Longrightarrow> g x = Some y) \<Longrightarrow>
   for_each g xs = Some r"
proof (induction xs arbitrary: r)
  case Nil
  then show ?case by simp
next
  case (Cons v vs)
  from Cons.prems(1) obtain a where a: "f v = Some a"
    by (cases "f v") (simp_all add: and_then_simps)
  then have ga: "g v = Some a" using Cons.prems(2) by simp
  show ?case
  proof (cases a)
    case (Inl p)
    with a ga Cons.prems(1) show ?thesis by (simp add: and_then_simps)
  next
    case (Inr y)
    with a Cons.prems(1) obtain z where z: "for_each f vs = Some z"
      by (cases "for_each f vs") (simp_all add: and_then_simps)
    then have "for_each g vs = Some z"
      using Cons.IH Cons.prems(2) by simp
    with z a ga Inr Cons.prems(1) show ?thesis by (simp add: and_then_simps)
  qed
qed

lemma for_each_all2:
  "list_all2 (\<lambda>x y. f x = Some (Inr y)) xs ys \<Longrightarrow> for_each f xs = ret ys"
  by (induction xs ys rule: list_all2_induct) (simp_all add: and_then_simps)

lemma for_each_Some:
  "(\<And>x. x \<in> set xs \<Longrightarrow> \<exists>r. f x = Some r) \<Longrightarrow> \<exists>r. for_each f xs = Some r"
proof (induction xs)
  case Nil
  then show ?case by (simp add: ret_def)
next
  case (Cons v vs)
  then obtain a z where a: "f v = Some a" and z: "for_each f vs = Some z"
    by (metis list.set_intros(1) list.set_intros(2))
  show ?case
    by (cases a; cases z) (simp_all add: a z and_then_simps ret_def)
qed

text \<open>Unfolding one call of the rendering functions.\<close>

lemma errorDetail_unfold:
  "errorDetail U h (Suc k) b p =
     (case h p of
        None \<Rightarrow> Some (Inl NilDereference)
      | Some fr \<Rightarrow> and_then (cause_detail U h k b fr) (own_entry U fr))"
  by (cases "h p") (simp_all add: cause_detail_def own_entry_def[abs_def])

lemma cause_detail_Frame:
  "Err fr = FramePtr f \<Longrightarrow> cause_detail U h k b fr = errorDetail U h k b f"
  unfolding cause_detail_def by simp

lemma cause_detail_leaf:
  "\<not> is_Frame (Err fr) \<Longrightarrow> Error U h k (Err fr) = Some (Inr M) \<Longrightarrow>
   cause_detail U h k b fr = Some (Inr (b @ M @ banner))"
  unfolding cause_detail_def
  by (cases "Err fr") (simp_all add: and_then_simps ret_def)

lemma own_entry_Some: "\<exists>r. own_entry U fr b = Some r"
  unfolding own_entry_def by (cases "argsDetail U (b @ Func fr @ ''('') (Args fr)") (simp_all add: and_then_simps ret_def)

lemma List_Error_unfold:
  "List_Error U h (Suc k) l =
     (if 2 \<le> length l then and_then (for_each (Error U h k) l) (\<lambda>s. ret (Join s [CHR 0x0A]))
      else if length l = 1 then Error U h k (l ! 0) else ret [])"
  by (simp add: Let_def)

lemma List_Summary_unfold:
  "List_Summary U h (Suc k) l =
     (if 2 \<le> length l then and_then (for_each (Summary U h k) l) (\<lambda>s. ret (Join s [CHR 0x0A]))
      else if length l = 1 then Summary U h k (l ! 0) else ret [])"
  by (simp add: Let_def)

lemma Summary_no_method:
  "\<not> has_Summary err \<Longrightarrow> Summary U h (Suc k) err = Error U h k err"
  by (cases err rule: has_Summary.cases) simp_all

lemma Summary_leaf: "\<not> is_Frame leaf \<Longrightarrow> Summary U h (Suc k) leaf = leaf_Summary U h k leaf"
  unfolding leaf_Summary_def
  by (cases leaf) (simp_all split: option.splits)

text \<open>More fuel does not change a result.\<close>

lemma Error_fuel_Suc:
  "(\<forall>e r. Error U h k e = Some r \<longrightarrow> Error U h (Suc k) e = Some r)
   \<and> (\<forall>p r. Frame_Error U h k p = Some r \<longrightarrow> Frame_Error U h (Suc k) p = Some r)
   \<and> (\<forall>b p r. errorDetail U h k b p = Some r \<longrightarrow> errorDetail U h (Suc k) b p = Some r)
   \<and> (\<forall>l r. List_Error U h k l = Some r \<longrightarrow> List_Error U h (Suc k) l = Some r)"
proof (induction k)
  case 0
  then show ?case by simp
next
  case (Suc k)
  then have E: "\<And>e r. Error U h k e = Some r \<Longrightarrow> Error U h (Suc k) e = Some r"
    and F: "\<And>p r. Frame_Error U h k p = Some r \<Longrightarrow> Frame_Error U h (Suc k) p = Some r"
    and D: "\<And>b p r. errorDetail U h k b p = Some r \<Longrightarrow> errorDetail U h (Suc k) b p = Some r"
    and L: "\<And>l r. List_Error U h k l = Some r \<Longrightarrow> List_Error U h (Suc k) l = Some r"
    by blast+
  have 1: "Error U h (Suc (Suc k)) e = Some r" if "Error U h (Suc k) e = Some r" for e r
    using that F L by (cases e) (simp_all del: Frame_Error.simps List_Error.simps)
  have 2: "Frame_Error U h (Suc (Suc k)) p = Some r" if "Frame_Error U h (Suc k) p = Some r" for p r
    using that D by (simp del: errorDetail.simps)
  have C: "cause_detail U h (Suc k) b fr = Some x" if "cause_detail U h k b fr = Some x" for b fr x
  proof (cases "Err fr")
    case (FramePtr f)
    with that show ?thesis by (simp add: cause_detail_Frame D del: errorDetail.simps)
  next
    case nil
    with that show ?thesis unfolding cause_detail_def
      by (simp del: Error.simps) (erule and_then_mono, rule E)
  next
    case (Foreign m s u)
    with that show ?thesis unfolding cause_detail_def
      by (simp del: Error.simps) (erule and_then_mono, rule E)
  next
    case (NotFoundPtr q)
    with that show ?thesis unfolding cause_detail_def
      by (simp del: Error.simps) (erule and_then_mono, rule E)
  next
    case (ListVal l)
    with that show ?thesis unfolding cause_detail_def
      by (simp del: Error.simps) (erule and_then_mono, rule E)
  qed
  have 3: "errorDetail U h (Suc (Suc k)) b p = Some r" if a: "errorDetail U h (Suc k) b p = Some r"
    for b p r
  proof (cases "h p")
    case None
    then show ?thesis using a by (simp add: errorDetail_unfold del: errorDetail.simps)
  next
    case (Some fr)
    then have "and_then (cause_detail U h k b fr) (own_entry U fr) = Some r"
      using a by (simp add: errorDetail_unfold del: errorDetail.simps)
    then have "and_then (cause_detail U h (Suc k) b fr) (own_entry U fr) = Some r"
      by (rule and_then_mono) (rule C)
    then show ?thesis using Some by (simp add: errorDetail_unfold del: errorDetail.simps)
  qed
  have 4: "List_Error U h (Suc (Suc k)) l = Some r" if a: "List_Error U h (Suc k) l = Some r" for l r
  proof -
    have fe: "for_each (Error U h (Suc k)) l = Some y" if "for_each (Error U h k) l = Some y" for y
      using that by (rule for_each_mono) (rule E)
    consider "2 \<le> length l" | "length l = 1" | "length l = 0" by linarith
    then show ?thesis
    proof cases
      case 1
      with a have "and_then (for_each (Error U h k) l) (\<lambda>s. ret (Join s [CHR 0x0A])) = Some r"
        by (simp add: List_Error_unfold del: List_Error.simps)
      then have "and_then (for_each (Error U h (Suc k)) l) (\<lambda>s. ret (Join s [CHR 0x0A])) = Some r"
        by (rule and_then_mono) (rule fe)
      with 1 show ?thesis by (simp add: List_Error_unfold del: List_Error.simps Error.simps)
    next
      case 2
      with a have "Error U h k (l ! 0) = Some r"
        by (simp add: List_Error_unfold del: List_Error.simps)
      then have "Error U h (Suc k) (l ! 0) = Some r" by (rule E)
      with 2 show ?thesis by (simp add: List_Error_unfold del: List_Error.simps Error.simps)
    next
      case 3
      with a show ?thesis by (simp add: List_Error_unfold del: List_Error.simps)
    qed
  qed
  from 1 2 3 4 show ?case by blast
qed

lemma Error_fuel_mono:
  assumes "k \<le> k'"
  shows "Error U h k e = Some r \<Longrightarrow> Error U h k' e = Some r"
    and "Frame_Error U h k p = Some r \<Longrightarrow> Frame_Error U h k' p = Some r"
    and "errorDetail U h k b p = Some r \<Longrightarrow> errorDetail U h k' b p = Some r"
    and "List_Error U h k l = Some r \<Longrightarrow> List_Error U h k' l = Some r"
  using assms
proof (induction k' rule: dec_induct)
  case base
  { case 1 then show ?case . }
  { case 2 then show ?case . }
  { case 3 then show ?case . }
  { case 4 then show ?case . }
next
  case (step n)
  { case 1 with step.IH(1) Error_fuel_Suc[of U h n] show ?case by blast }
  { case 2 with step.IH(2) Error_fuel_Suc[of U h n] show ?case by blast }
  { case 3 with step.IH(3) Error_fuel_Suc[of U h n] show ?case by blast }
  { case 4 with step.IH(4) Error_fuel_Suc[of U h n] show ?case by blast }
qed

lemma Summary_fuel_Suc:
  "(\<forall>e r. Summary U h k e = Some r \<longrightarrow> Summary U h (Suc k) e = Some r)
   \<and> (\<forall>p r. Frame_Summary U h k p = Some r \<longrightarrow> Frame_Summary U h (Suc k) p = Some r)
   \<and> (\<forall>l r. List_Summary U h k l = Some r \<longrightarrow> List_Summary U h (Suc k) l = Some r)"
proof (induction k)
  case 0
  then show ?case by simp
next
  case (Suc k)
  then have S: "\<And>e r. Summary U h k e = Some r \<Longrightarrow> Summary U h (Suc k) e = Some r"
    and F: "\<And>p r. Frame_Summary U h k p = Some r \<Longrightarrow> Frame_Summary U h (Suc k) p = Some r"
    and L: "\<And>l r. List_Summary U h k l = Some r \<Longrightarrow> List_Summary U h (Suc k) l = Some r"
    by blast+
  have E: "Error U h k e = Some r \<Longrightarrow> Error U h (Suc k) e = Some r" for e r
    using Error_fuel_Suc[of U h k] by blast
  have 1: "Summary U h (Suc (Suc k)) e = Some r" if a: "Summary U h (Suc k) e = Some r" for e r
  proof (cases "has_Summary e")
    case True
    with a F L show ?thesis
      by (cases e rule: has_Summary.cases)
        (simp_all del: Frame_Summary.simps List_Summary.simps)
  next
    case False
    with a E show ?thesis by (simp add: Summary_no_method del: Summary.simps Error.simps)
  qed
  have 2: "Frame_Summary U h (Suc (Suc k)) p = Some r" if "Frame_Summary U h (Suc k) p = Some r"
    for p r
    using that S by (cases "h p") (simp_all del: Summary.simps)
  have 3: "List_Summary U h (Suc (Suc k)) l = Some r" if a: "List_Summary U h (Suc k) l = Some r"
    for l r
  proof -
    have fe: "for_each (Summary U h (Suc k)) l = Some y" if "for_each (Summary U h k) l = Some y"
      for y
      using that by (rule for_each_mono) (rule S)
    consider "2 \<le> length l" | "length l = 1" | "length l = 0" by linarith
    then show ?thesis
    proof cases
      case 1
      with a have "and_then (for_each (Summary U h k) l) (\<lambda>s. ret (Join s [CHR 0x0A])) = Some r"
        by (simp add: List_Summary_unfold del: List_Summary.simps)
      then have "and_then (for_each (Summary U h (Suc k)) l) (\<lambda>s. ret (Join s [CHR 0x0A])) = Some r"
        by (rule and_then_mono) (rule fe)
      with 1 show ?thesis by (simp add: List_Summary_unfold del: List_Summary.simps Summary.simps)
    next
      case 2
      with a have "Summary U h k (l ! 0) = Some r"
        by (simp add: List_Summary_unfold del: List_Summary.simps)
      then have "Summary U h (Suc k) (l ! 0) = Some r" by (rule S)
      with 2 show ?thesis by (simp add: List_Summary_unfold del: List_Summary.simps Summary.simps)
    next
      case 3
      with a show ?thesis by (simp add: List_Summary_unfold del: List_Summary.simps)
    qed
  qed
  from 1 2 3 show ?case by blast
qed

lemma Summary_fuel_mono:
  assumes "k \<le> k'"
  shows "Summary U h k e = Some r \<Longrightarrow> Summary U h k' e = Some r"
    and "Frame_Summary U h k p = Some r \<Longrightarrow> Frame_Summary U h k' p = Some r"
    and "List_Summary U h k l = Some r \<Longrightarrow> List_Summary U h k' l = Some r"
  using assms
proof (induction k' rule: dec_induct)
  case base
  { case 1 then show ?case . }
  { case 2 then show ?case . }
  { case 3 then show ?case . }
next
  case (step n)
  { case 1 with step.IH(1) Summary_fuel_Suc[of U h n] show ?case by blast }
  { case 2 with step.IH(2) Summary_fuel_Suc[of U h n] show ?case by blast }
  { case 3 with step.IH(3) Summary_fuel_Suc[of U h n] show ?case by blast }
qed

subsection \<open>The value renderer\<close>

text \<open>The functions that append to a buffer leave the buffer they are given in front.\<close>

lemma AppendInt_prefix: "AppendInt (b @ x) i base = b @ AppendInt x i base"
  by (simp add: AppendInt_def)

lemma AppendRune_prefix: "AppendRune (b @ x) r = b @ AppendRune x r"
  by (simp add: AppendRune_def Let_def)

lemma appendEscapedRune_prefix: "appendEscapedRune U (b @ x) r = b @ appendEscapedRune U x r"
  by (simp add: appendEscapedRune_def Let_def AppendRune_prefix)

lemma quoteLoop_prefix: "quoteLoop U (b @ x) s = b @ quoteLoop U x s"
proof (induction U x s arbitrary: b rule: quoteLoop.induct)
  case (1 U buf)
  then show ?case by simp
next
  case (2 U buf c cs)
  obtain r width where rw:
    "(if of_char c < (0x80 :: nat) then (of_char c, 1) else DecodeRuneInString (c # cs)) = (r, width)"
    by (cases "if of_char c < (0x80 :: nat) then (of_char c, 1::nat) else DecodeRuneInString (c # cs)") auto
  show ?case
  proof (cases "width = 1 \<and> r = RuneError")
    case True
    have "quoteLoop U (b @ buf @ [CHR 0x5C, CHR ''x'', lowerhex ! (of_char c div 16),
             lowerhex ! (of_char c mod 16)]) cs
        = b @ quoteLoop U (buf @ [CHR 0x5C, CHR ''x'', lowerhex ! (of_char c div 16),
             lowerhex ! (of_char c mod 16)]) cs"
      using 2(1)[OF refl rw[symmetric] True, of b] by simp
    with rw True show ?thesis by simp
  next
    case False
    have "quoteLoop U (b @ appendEscapedRune U buf r) (drop (width - 1) cs)
        = b @ quoteLoop U (appendEscapedRune U buf r) (drop (width - 1) cs)"
      using 2(2)[OF refl rw[symmetric] False, of b] by simp
    with rw False show ?thesis by (auto simp add: appendEscapedRune_prefix)
  qed
qed

lemma AppendQuote_prefix: "AppendQuote U (b @ x) s = b @ AppendQuote U x s"
  by (simp add: AppendQuote_def quoteLoop_prefix)

lemma appendValue_prefix:
  "appendValue U b arg = map_sum id ((@) b) (appendValue U [] arg)"
proof (cases arg)
  case None
  then show ?thesis by simp
next
  case (Some v)
  have q: "AppendQuote U b s = b @ AppendQuote U [] s" for s
    using AppendQuote_prefix[of U b "[]" s] by simp
  have i: "AppendInt (b @ ''0x'') j 16 = b @ AppendInt ''0x'' j 16" for j
    by (rule AppendInt_prefix)
  show ?thesis using Some
    by (simp add: Let_def q i split: option.splits sum.splits)
qed

text \<open>\<open>argsDetail\<close> joins the rendered arguments with a comma and a space.\<close>

lemma argsLoop_Join:
  "list_all2 (\<lambda>a t. appendValue U [] a = Inr t) args toks \<Longrightarrow>
   nlast = i + int (length args) - 1 \<Longrightarrow>
   argsLoop U nlast b i args = Inr (b @ Join toks '', '')"
proof (induction args toks arbitrary: b i rule: list_all2_induct)
  case Nil
  then show ?case by simp
next
  case (Cons a args t toks)
  have a: "appendValue U b a = Inr (b @ t)"
    using Cons.hyps(1) appendValue_prefix[of U b a] by simp
  show ?case
  proof (cases args)
    case Nil
    with Cons.hyps(2) have "toks = []" by simp
    with Nil a Cons.prems show ?thesis by simp
  next
    case (Cons a' args')
    with Cons.hyps(2) obtain t' toks' where toks: "toks = t' # toks'"
      by (cases toks) auto
    have ne: "i \<noteq> nlast" using Cons.prems \<open>args = a' # args'\<close> by simp
    have "argsLoop U nlast (b @ t @ '', '') (i + 1) args = Inr ((b @ t @ '', '') @ Join toks '', '')"
      by (rule Cons.IH) (use Cons.prems in simp)
    with a ne toks show ?thesis by simp
  qed
qed

lemma argsDetail_Join:
  "list_all2 (\<lambda>a t. appendValue U [] a = Inr t) args toks \<Longrightarrow>
   argsDetail U b args = Inr (b @ Join toks '', '')"
  unfolding argsDetail_def by (rule argsLoop_Join) simp_all

lemma own_entry_rendered:
  "rendered U fr toks \<Longrightarrow> own_entry U fr b = Some (Inr (b @ stack_entry fr toks))"
  unfolding rendered_def own_entry_def
  by (simp add: argsDetail_Join and_then_simps ret_def stack_entry_def AppendInt_def)

text \<open>
  The length of a quoted string: a rune of \<open>w\<close> bytes is written with at most \<open>4 * w\<close>
  characters.
\<close>

lemma length_abbreviated: "length (abbreviated s) \<le> 35"
  by (simp add: abbreviated_def)

lemma plain_abbreviated: "list_all plain s \<Longrightarrow> list_all plain (abbreviated s)"
  by (auto simp: abbreviated_def list_all_iff plain_def dest: in_set_takeD in_set_dropD)

lemma length_AppendRune: "length (AppendRune p r) \<le> length p + 4"
  by (simp add: AppendRune_def Let_def)

lemma length_AppendRune_ascii: "r < 0x80 \<Longrightarrow> length (AppendRune p r) = length p + 1"
  by (simp add: AppendRune_def Let_def)

lemma length_appendEscapedRune:
  "length (appendEscapedRune U buf r) \<le> length buf + 10"
  "r < 0x10000 \<Longrightarrow> length (appendEscapedRune U buf r) \<le> length buf + 6"
  "r < 0x80 \<Longrightarrow> length (appendEscapedRune U buf r) \<le> length buf + 4"
  using length_AppendRune[of buf r] length_AppendRune_ascii[of r buf]
  by (auto simp: appendEscapedRune_def Let_def IsPrint_def RuneError_def)

lemma Decode_width:
  assumes "DecodeRuneInString (c # cs) = (r, w)"
  shows "1 \<le> w \<and> w \<le> length (c # cs) \<and> w \<le> 4
       \<and> (w = 1 \<longrightarrow> r < 0x80 \<or> r = RuneError) \<and> (w \<le> 3 \<longrightarrow> r < 0x10000)"
proof -
  define s where "s = c # cs"
  define s0 where "s0 = byte_at s 0"
  define sz where "sz = (if s0 < 0xE0 then 2 else if s0 < 0xF0 then 3 else 4 :: nat)"
  have m: "a mod 0x20 * 0x40 + b mod 0x40 < 0x10000" for a b :: nat
  proof -
    have "a mod 0x20 < 0x20" "b mod 0x40 < 0x40" by simp_all
    then show ?thesis by linarith
  qed
  have m3: "a mod 0x10 * 0x1000 + b mod 0x40 * 0x40 + d mod 0x40 < 0x10000" for a b d :: nat
  proof -
    have "a mod 0x10 < 0x10" "b mod 0x40 < 0x40" "d mod 0x40 < 0x40" by simp_all
    then show ?thesis by linarith
  qed
  have len: "1 \<le> length s" by (simp add: s_def)
  have sz: "2 \<le> sz" "sz \<le> 4" by (simp_all add: sz_def)
  have cases: "(r, w) = (s0, 1) \<and> s0 < 0x80 \<or> (r, w) = (RuneError, 1)
      \<or> (sz \<le> length s \<and> w = 2 \<and> r = (s0 mod 0x20) * 0x40 + byte_at s 1 mod 0x40)
      \<or> (sz \<le> length s \<and> 3 \<le> sz \<and> w = 3 \<and> r = (s0 mod 0x10) * 0x1000 + (byte_at s 1 mod 0x40) * 0x40 + byte_at s 2 mod 0x40)
      \<or> (sz \<le> length s \<and> w = 4 \<and> sz = 4)"
    using assms len unfolding s_def[symmetric]
    by (simp add: DecodeRuneInString_def Let_def s0_def[symmetric] sz_def[symmetric] split: if_splits)
      (auto simp: sz_def split: if_splits)
  then show ?thesis
    unfolding s_def[symmetric]
    using len sz m[of s0 "byte_at s 1"] m3[of s0 "byte_at s 1" "byte_at s 2"]
    by (elim disjE conjE) (simp_all add: RuneError_def)
qed

lemma length_quoteLoop: "length (quoteLoop U buf s) \<le> length buf + 4 * length s"
proof (induction U buf s rule: quoteLoop.induct)
  case (1 U buf)
  then show ?case by simp
next
  case (2 U buf c cs)
  obtain r w where rw:
    "(if of_char c < (0x80 :: nat) then (of_char c, 1) else DecodeRuneInString (c # cs)) = (r, w)"
    by (cases "if of_char c < (0x80 :: nat) then (of_char c, 1::nat) else DecodeRuneInString (c # cs)") auto
  have w: "1 \<le> w \<and> w \<le> length (c # cs) \<and> w \<le> 4
       \<and> (w = 1 \<longrightarrow> r < 0x80 \<or> r = RuneError) \<and> (w \<le> 3 \<longrightarrow> r < 0x10000)"
  proof (cases "of_char c < (0x80 :: nat)")
    case True
    with rw show ?thesis by auto
  next
    case False
    with rw show ?thesis by (intro Decode_width) simp
  qed
  show ?case
  proof (cases "w = 1 \<and> r = RuneError")
    case True
    have "length (quoteLoop U (buf @ [CHR 0x5C, CHR ''x'', lowerhex ! (of_char c div 16),
             lowerhex ! (of_char c mod 16)]) cs)
        \<le> length (buf @ [CHR 0x5C, CHR ''x'', lowerhex ! (of_char c div 16),
             lowerhex ! (of_char c mod 16)]) + 4 * length cs"
      using 2(1)[OF refl rw[symmetric] True] by simp
    with rw True show ?thesis by simp
  next
    case False
    have ih: "length (quoteLoop U (appendEscapedRune U buf r) (drop (w - 1) cs))
        \<le> length (appendEscapedRune U buf r) + 4 * length (drop (w - 1) cs)"
      using 2(2)[OF refl rw[symmetric] False] by simp
    have "length (appendEscapedRune U buf r) \<le> length buf + 4 * w"
    proof -
      consider "w = 1" | "w = 2 \<or> w = 3" | "w = 4" using w by linarith
      then show ?thesis
      proof cases
        case 1
        with w False have "r < 0x80" by simp
        with 1 length_appendEscapedRune(3)[of r U buf] show ?thesis by simp
      next
        case 2
        with w have "r < 0x10000" by auto
        with 2 length_appendEscapedRune(2)[of r U buf] show ?thesis by auto
      next
        case 3
        with length_appendEscapedRune(1)[of U buf r] show ?thesis by simp
      qed
    qed
    moreover have "length (drop (w - 1) cs) + w = length (c # cs)" using w by simp
    ultimately have "length (quoteLoop U (appendEscapedRune U buf r) (drop (w - 1) cs))
        \<le> length buf + 4 * length (c # cs)"
      using ih by linarith
    with rw False show ?thesis by auto
  qed
qed

lemma length_AppendQuote: "length (AppendQuote U dst s) \<le> length dst + 4 * length s + 2"
  using length_quoteLoop[of U "dst @ [CHR 0x22]" s] by (simp add: AppendQuote_def)

lemma quoteLoop_plain: "list_all plain s \<Longrightarrow> quoteLoop U buf s = buf @ s"
proof (induction s arbitrary: buf)
  case Nil
  then show ?case by simp
next
  case (Cons c cs)
  then have c: "0x20 \<le> (of_char c :: nat)" "(of_char c :: nat) \<le> 0x7E" "c \<noteq> CHR 0x22" "c \<noteq> CHR 0x5C"
    by (simp_all add: plain_def)
  have q: "(char_of (0x22 :: nat) :: char) = CHR 0x22" "(char_of (0x5C :: nat) :: char) = CHR 0x5C"
    by (simp_all add: char_of_def bit_Suc_0_iff)
  have ne: "(of_char c :: nat) \<noteq> 0x22" "(of_char c :: nat) \<noteq> 0x5C"
  proof -
    show "(of_char c :: nat) \<noteq> 0x22"
    proof
      assume "(of_char c :: nat) = 0x22"
      then have "char_of (of_char c :: nat) = (char_of (0x22 :: nat) :: char)" by simp
      with c(3) q(1) show False by simp
    qed
    show "(of_char c :: nat) \<noteq> 0x5C"
    proof
      assume "(of_char c :: nat) = 0x5C"
      then have "char_of (of_char c :: nat) = (char_of (0x5C :: nat) :: char)" by simp
      with c(4) q(2) show False by simp
    qed
  qed
  have "appendEscapedRune U buf (of_char c) = buf @ [c]"
    using c ne by (simp add: appendEscapedRune_def IsPrint_def AppendRune_def)
  with c Cons show ?case by (simp add: RuneError_def)
qed

lemma quoteLoop_NUL:
  "quoteLoop U buf (replicate n (CHR 0x00)) = buf @ concat (replicate n [CHR 0x5C, CHR ''x'', CHR ''0'', CHR ''0''])"
proof (induction n arbitrary: buf)
  case 0
  then show ?case by simp
next
  case (Suc n)
  have "appendEscapedRune U buf 0 = buf @ [CHR 0x5C, CHR ''x'', CHR ''0'', CHR ''0'']"
    by (simp add: appendEscapedRune_def IsPrint_def lowerhex_def)
  with Suc show ?case by (simp add: RuneError_def)
qed

subsection \<open>Chains of frames\<close>

lemma frame_chain_leaf: "frame_chain h e frs leaf \<Longrightarrow> \<not> is_Frame leaf"
  by (induction rule: frame_chain.induct) simp_all

lemma errorDetail_chain:
  "frame_chain h e frs leaf \<Longrightarrow> e = FramePtr p \<Longrightarrow>
   Error U h k leaf = Some (Inr M) \<Longrightarrow> list_all2 (rendered U) frs tokss \<Longrightarrow>
   errorDetail U h (k + length frs) b p
     = Some (Inr (b @ M @ banner @ concat (map2 stack_entry frs tokss)))"
proof (induction arbitrary: p tokss rule: frame_chain.induct)
  case (leaf leaf)
  then show ?case by simp
next
  case (wrap q fr frs leaf)
  from wrap.prems(1) have pq: "p = q" by simp
  from wrap.prems(3) obtain toks tokss' where
    t: "tokss = tokss' @ [toks]" "list_all2 (rendered U) frs tokss'" "rendered U fr toks"
    by (auto simp: list_all2_append1 list_all2_Cons1)
  have len: "length frs = length tokss'" using t(2) by (rule list_all2_lengthD)
  have inner: "cause_detail U h (k + length frs) b fr
        = Some (Inr (b @ M @ banner @ concat (map2 stack_entry frs tokss')))"
  proof (cases "is_Frame (Err fr)")
    case True
    then obtain f where f: "Err fr = FramePtr f" by (cases "Err fr") auto
    from wrap.IH[OF f wrap.prems(2) t(2)] f show ?thesis
      by (simp add: cause_detail_Frame)
  next
    case False
    with wrap.hyps(2) have "frs = []" "leaf = Err fr"
      by (auto elim: frame_chain.cases)
    with False wrap.prems(2) show ?thesis
      by (simp add: cause_detail_leaf)
  qed
  have "errorDetail U h (Suc (k + length frs)) b q
      = and_then (cause_detail U h (k + length frs) b fr) (own_entry U fr)"
    using wrap.hyps(1) by (simp only: errorDetail_unfold option.case)
  also have "\<dots> = Some (Inr ((b @ M @ banner @ concat (map2 stack_entry frs tokss')) @ stack_entry fr toks))"
    unfolding inner and_then_simps by (rule own_entry_rendered[OF t(3)])
  finally show ?case
    unfolding pq t(1) using len by simp
qed

lemma Summary_chain:
  "frame_chain h e frs leaf \<Longrightarrow> Summary U h k leaf = Some r \<Longrightarrow>
   Summary U h (k + 2 * length frs) e = Some r"
proof (induction rule: frame_chain.induct)
  case (leaf leaf)
  then show ?case by simp
next
  case (wrap p fr frs leaf)
  then have "Summary U h (k + 2 * length frs) (Err fr) = Some r" by simp
  with wrap.hyps(1) show ?case by (simp del: Summary.simps(2)[where err = "Err fr"])
qed

lemma frame_chain_unwraps_to:
  "frame_chain h e frs leaf \<Longrightarrow> Unwrap h leaf = None \<Longrightarrow> unwraps_to h e leaf"
proof (induction rule: frame_chain.induct)
  case (leaf leaf)
  then show ?case by (simp add: unwraps_to.final)
next
  case (wrap p fr frs leaf)
  then have "Unwrap h (FramePtr p) = Some (Inr (Err fr))" by (simp add: Frame_Unwrap_def)
  with wrap show ?case by (auto intro: unwraps_to.step)
qed

lemma IsNotFound_unwraps_to:
  "unwraps_to h err final \<Longrightarrow> IsNotFound h err = Some (Inr (is_NotFound final))"
proof (induction rule: unwraps_to.induct)
  case (final err)
  then show ?case by (subst IsNotFound.simps) simp
next
  case (step err e final)
  then show ?case by (subst IsNotFound.simps) simp
qed

lemma Err_func_chain: "frame_chain h e frs leaf \<Longrightarrow> Err_func h e = Some (Inr leaf)"
proof (induction rule: frame_chain.induct)
  case (leaf leaf)
  then show ?case by (subst Err_func.simps) (cases leaf; simp)
next
  case (wrap p fr frs leaf)
  then show ?case by (subst Err_func.simps) simp
qed

subsection \<open>Termination on acyclic heaps\<close>

lemma finite_frame_refs: "finite (frame_refs e)"
  by (induction e rule: frame_refs.induct) simp_all

lemma grounded_refs:
  "(\<And>q. q \<in> frame_refs e \<Longrightarrow> grounded h (FramePtr q)) \<Longrightarrow> grounded h e"
proof (induction e rule: frame_refs.induct)
  case (1 p)
  then show ?case by simp
next
  case (2 l)
  show ?case
  proof (rule g_List, rule ballI)
    fix e assume e: "e \<in> set l"
    show "grounded h e"
      by (rule 2(1)[OF e]) (use e 2(2) in auto)
  qed
qed (auto intro: grounded.intros)

lemma finite_cause_rel: "finite (dom h) \<Longrightarrow> finite (cause_rel h)"
proof -
  assume f: "finite (dom h)"
  have "cause_rel h \<subseteq> (\<Union>p \<in> dom h. frame_refs (Err (the (h p))) \<times> {p})"
    by (auto simp: cause_rel_def)
  moreover have "finite (\<Union>p \<in> dom h. frame_refs (Err (the (h p))) \<times> {p})"
    using f by (simp add: finite_frame_refs)
  ultimately show ?thesis by (rule finite_subset)
qed

lemma acyclic_grounded:
  assumes "finite (dom h)" "acyclic (cause_rel h)"
  shows "grounded h e"
proof -
  have wf: "wf (cause_rel h)"
    using assms by (simp add: finite_acyclic_wf finite_cause_rel)
  have "grounded h (FramePtr p)" for p
    using wf
  proof (induction p rule: wf_induct_rule)
    case (less p)
    show ?case
    proof (cases "h p")
      case None
      then show ?thesis by (rule g_nilptr)
    next
      case (Some fr)
      have "grounded h (Err fr)"
      proof (rule grounded_refs)
        fix q assume "q \<in> frame_refs (Err fr)"
        with Some have "(q, p) \<in> cause_rel h" by (auto simp: cause_rel_def)
        then show "grounded h (FramePtr q)" by (rule less.IH)
      qed
      with Some show ?thesis by (rule g_Frame)
    qed
  qed
  then show ?thesis by (rule grounded_refs)
qed

lemma common_fuel:
  "(\<And>e. e \<in> set l \<Longrightarrow> \<exists>k r. Error U h k e = Some r) \<Longrightarrow>
   \<exists>K. \<forall>e \<in> set l. \<exists>r. Error U h K e = Some r"
proof (induction l)
  case Nil
  then show ?case by simp
next
  case (Cons a l)
  then obtain K where K: "\<forall>e \<in> set l. \<exists>r. Error U h K e = Some r" by fastforce
  from Cons.prems[of a] obtain k r where k: "Error U h k a = Some r" by auto
  have up: "Error U h j e = Some s \<Longrightarrow> j \<le> max k K \<Longrightarrow> Error U h (max k K) e = Some s" for j e s
    by (rule Error_fuel_mono(1))
  have "\<exists>r. Error U h (max k K) a = Some r"
    using up[OF k] by simp
  moreover have "\<exists>r. Error U h (max k K) e = Some r" if "e \<in> set l" for e
  proof -
    from K that obtain s where "Error U h K e = Some s" by blast
    from up[OF this] show ?thesis by simp
  qed
  ultimately have "\<forall>e \<in> set (a # l). \<exists>r. Error U h (max k K) e = Some r" by simp
  then show ?case ..
qed

lemma grounded_terminates:
  "grounded h e \<Longrightarrow>
   (\<exists>k r. Error U h k e = Some r)
   \<and> (\<forall>p b. e = FramePtr p \<longrightarrow> (\<exists>k r. errorDetail U h k b p = Some r))"
proof (induction rule: grounded.induct)
  case g_nil
  have "Error U h (Suc 0) nil = Some (Inl NilDereference)" by simp
  then show ?case by blast
next
  case (g_Foreign msg summary unwrap)
  have "Error U h (Suc 0) (Foreign msg summary unwrap) = Some (Inr msg)" by (simp add: ret_def)
  then show ?case by blast
next
  case (g_NotFound q)
  have "Error U h (Suc 0) (NotFoundPtr q) = Some (NotFound_Error q)" by simp
  then show ?case by blast
next
  case (g_nilptr p)
  have d: "errorDetail U h (Suc 0) b p = Some (Inl NilDereference)" for b
    using g_nilptr by simp
  then have "Error U h (Suc (Suc (Suc 0))) (FramePtr p) = Some (Inl NilDereference)" by simp
  with d show ?case by blast
next
  case (g_Frame p fr)
  have d: "\<exists>k r. errorDetail U h k b p = Some r" for b
  proof -
    have "\<exists>k x. cause_detail U h k b fr = Some x"
    proof (cases "is_Frame (Err fr)")
      case True
      then obtain f where f: "Err fr = FramePtr f" by (cases "Err fr") auto
      with g_Frame.IH obtain k r where "errorDetail U h k b f = Some r" by blast
      with f show ?thesis by (auto simp: cause_detail_Frame)
    next
      case False
      from g_Frame.IH obtain k r where k: "Error U h k (Err fr) = Some r" by blast
      have "\<exists>x. and_then (Error U h k (Err fr)) (\<lambda>msg. ret (b @ msg @ banner)) = Some x"
        using k by (rule and_then_Some) (simp add: ret_def)
      with False show ?thesis unfolding cause_detail_def by (cases "Err fr") auto
    qed
    then obtain k x where "cause_detail U h k b fr = Some x" by blast
    then have "\<exists>r. and_then (cause_detail U h k b fr) (own_entry U fr) = Some r"
      by (rule and_then_Some) (rule own_entry_Some)
    with g_Frame.hyps(1) have "\<exists>r. errorDetail U h (Suc k) b p = Some r"
      by (simp add: errorDetail_unfold del: errorDetail.simps)
    then show ?thesis by blast
  qed
  from d[of "[]"] obtain k r where "errorDetail U h k [] p = Some r" by blast
  then have "Error U h (Suc (Suc k)) (FramePtr p) = Some r" by simp
  with d show ?case by blast
next
  case (g_List l)
  then have "\<exists>K. \<forall>e \<in> set l. \<exists>r. Error U h K e = Some r"
    by (intro common_fuel) blast
  then obtain K where K: "\<forall>e \<in> set l. \<exists>r. Error U h K e = Some r" ..
  then have fe: "\<exists>r. for_each (Error U h K) l = Some r" by (intro for_each_Some) blast
  then obtain x where x: "for_each (Error U h K) l = Some x" ..
  have "\<exists>r. and_then (for_each (Error U h K) l) (\<lambda>s. ret (Join s [CHR 0x0A])) = Some r"
    using x by (rule and_then_Some) (simp add: ret_def)
  moreover have "\<exists>r. Error U h K (l ! 0) = Some r" if "length l = 1"
    using K that by (cases l) auto
  ultimately have "\<exists>r. List_Error U h (Suc K) l = Some r"
    by (simp add: List_Error_unfold ret_def del: List_Error.simps)
  then obtain r where "Error U h (Suc (Suc K)) (ListVal l) = Some r" by auto
  then show ?case by blast
qed

text \<open>
  On a frame that is its own cause the recursion never ends: no amount of fuel gives a
  result.
\<close>

lemma cyclic_never_returns:
  "h p = Some fr \<Longrightarrow> Err fr = FramePtr p \<Longrightarrow> errorDetail U h k b p = None"
  by (induction k) (simp_all add: errorDetail_unfold cause_detail_Frame and_then_simps del: errorDetail.simps(2))

text \<open>A frame whose cause is the nil interface panics when its cause is asked for its message.\<close>

lemma nil_cause_panics:
  "h p = Some fr \<Longrightarrow> Err fr = nil \<Longrightarrow> errorDetail U h (Suc (Suc k)) b p = Some (Inl NilDereference)"
  by (simp add: and_then_simps)

subsection \<open>The example heap\<close>

lemmas eval_simps =
  NewWith_def NewFrame_def New_def int_value_def string_value_def named_string_value_def
  AppendInt_def digits_def lowerhex_def AppendQuote_def appendEscapedRune_def IsPrint_def
  AppendRune_def RuneError_def char_of_def bit_Suc_0_iff argsDetail_def banner_def
  and_then_simps ret_def NotFound_Error_def

lemma example_heap_simps:
  "example_heap 1 = Some frame1" "example_heap 2 = Some frame2"
  "example_heap 3 = Some frame3" "example_heap 4 = Some frame4"
  by (simp_all add: example_heap_def)

lemma example_Err:
  "Err frame1 = New ''disk full''" "Err frame2 = FramePtr 1"
  "Err frame3 = NotFoundPtr (Some \<lparr>Category = ''key''\<rparr>)" "Err frame4 = FramePtr 3"
  by (simp_all add: frame1_def frame2_def frame3_def frame4_def NewWith_def NewFrame_def)

lemma example_chain_1: "frame_chain example_heap (FramePtr 1) [frame1] (New ''disk full'')"
proof -
  have "frame_chain example_heap (FramePtr 1) ([] @ [frame1]) (New ''disk full'')"
  proof (rule frame_chain.wrap)
    show "example_heap 1 = Some frame1" by (rule example_heap_simps)
    show "frame_chain example_heap (Err frame1) [] (New ''disk full'')"
      by (simp add: example_Err frame_chain.leaf New_def)
  qed
  then show ?thesis by simp
qed

lemma example_chain_2: "frame_chain example_heap (FramePtr 2) [frame1, frame2] (New ''disk full'')"
proof -
  have "frame_chain example_heap (FramePtr 2) ([frame1] @ [frame2]) (New ''disk full'')"
  proof (rule frame_chain.wrap)
    show "example_heap 2 = Some frame2" by (rule example_heap_simps)
    show "frame_chain example_heap (Err frame2) [frame1] (New ''disk full'')"
      by (simp only: example_Err example_chain_1)
  qed
  then show ?thesis by simp
qed

lemma example_chain_4:
  "frame_chain example_heap (FramePtr 4) [frame3, frame4] (NotFoundPtr (Some \<lparr>Category = ''key''\<rparr>))"
proof -
  have "frame_chain example_heap (FramePtr 3) ([] @ [frame3]) (NotFoundPtr (Some \<lparr>Category = ''key''\<rparr>))"
  proof (rule frame_chain.wrap)
    show "example_heap 3 = Some frame3" by (rule example_heap_simps)
    show "frame_chain example_heap (Err frame3) [] (NotFoundPtr (Some \<lparr>Category = ''key''\<rparr>))"
      by (simp add: example_Err frame_chain.leaf)
  qed
  then have 3: "frame_chain example_heap (Err frame4) [frame3] (NotFoundPtr (Some \<lparr>Category = ''key''\<rparr>))"
    by (simp only: example_Err append_Nil)
  have "frame_chain example_heap (FramePtr 4) ([frame3] @ [frame4]) (NotFoundPtr (Some \<lparr>Category = ''key''\<rparr>))"
    using example_heap_simps(4) 3 by (rule frame_chain.wrap)
  then show ?thesis by simp
qed

lemma example_finite: "finite (dom example_heap)"
proof (rule finite_subset)
  show "dom example_heap \<subseteq> {1, 2, 3, 4}"
    by (auto simp: example_heap_def dom_def split: if_splits)
qed simp

lemma example_acyclic: "acyclic (cause_rel example_heap)"
proof (rule acyclic_subset)
  show "acyclic less_than" by (rule wf_acyclic) (rule wf_less_than)
  show "cause_rel example_heap \<subseteq> less_than"
    by (auto simp: cause_rel_def example_heap_def example_Err New_def split: if_splits)
qed

section \<open>The claims\<close>

text \<open>
  C1. The claim is that for every chain of frames over a leaf with the message \<open>M\<close>,
  \<^verbatim>\<open>(*Frame).Error\<close> returns \<open>M\<close>, the banner and one stack entry for every frame. It
  does not for a frame with an argument of a defined string type: \<open>name_heap\<close> holds one
  frame over \<^verbatim>\<open>New("e")\<close>, whose \<^verbatim>\<open>Error()\<close> returns \<^verbatim>\<open>e\<close>, and \<^verbatim>\<open>(*Frame).Error\<close> of
  the frame panics at the type assertion of line 217, with any fuel that lets it reach
  the argument. This theorem evaluates the code there.
\<close>

theorem Frame_Error_named_string_panics:
  "Error U name_heap (Suc k) (New ''e'') = Some (Inr ''e'')
   \<and> Frame_Error U name_heap (Suc (Suc (Suc k))) 1 = Some (Inl InterfaceConversion)"
  by (simp add: name_heap_def name_frame_def NewFrame_def New_def named_string_value_def
      argsDetail_def and_then_simps ret_def)

text \<open>
  Where the arguments of every frame are rendered, the text is as the specification
  describes it. Let \<open>FramePtr p\<close> be a chain of frames \<open>frs\<close> (innermost first) over a leaf
  that is not a frame and whose \<^verbatim>\<open>Error()\<close> returns the message \<open>M\<close>, and let \<open>tokss\<close> be
  the rendered arguments of the frames. Then the chain has at least one frame, and with
  enough fuel \<^verbatim>\<open>(*Frame).Error\<close> returns \<open>M\<close>, then the banner, then the stack entry of
  every frame in wrap order: the entry of the innermost frame first, the entry of the
  outermost frame last.
\<close>

lemma Frame_Error_chain:
  assumes "frame_chain h (FramePtr p) frs leaf"
    and "Error U h k leaf = Some (Inr M)"
    and "list_all2 (rendered U) frs tokss"
  shows "frs \<noteq> []
       \<and> (\<forall>k' \<ge> k + length frs + 1.
            Frame_Error U h k' p = Some (Inr (M @ banner @ concat (map2 stack_entry frs tokss))))"
proof (intro conjI allI impI)
  show "frs \<noteq> []" using assms(1) by (auto elim: frame_chain.cases)
next
  fix k' assume le: "k + length frs + 1 \<le> k'"
  have "errorDetail U h (k + length frs) [] p
      = Some (Inr ([] @ M @ banner @ concat (map2 stack_entry frs tokss)))"
    using assms(1) refl assms(2,3) by (rule errorDetail_chain)
  then have "Frame_Error U h (Suc (k + length frs)) p
      = Some (Inr (M @ banner @ concat (map2 stack_entry frs tokss)))"
    by (simp del: errorDetail.simps)
  then show "Frame_Error U h k' p = Some (Inr (M @ banner @ concat (map2 stack_entry frs tokss)))"
    by (rule Error_fuel_mono(2)[rotated]) (use le in simp)
qed

text \<open>
  The example of the specification, \<^verbatim>\<open>writeBlock\<close> with the arguments 42 and "cache" and
  the code ENOSPC around \<^verbatim>\<open>New("disk full")\<close>, made at the line 17 of the file \<^verbatim>\<open>blk.go\<close>.
\<close>

lemma Frame_Error_chain_example:
  "frame_chain example_heap (FramePtr 1) [frame1] (New ''disk full'')
   \<and> Error latin1_only example_heap 1 (New ''disk full'') = Some (Inr ''disk full'')
   \<and> list_all2 (rendered latin1_only) [frame1] [[''42'', [CHR 0x22] @ ''cache'' @ [CHR 0x22]]]
   \<and> (1::nat) + length [frame1] + 1 \<le> 3
   \<and> Frame_Error latin1_only example_heap 3 1 =
       Some (Inr (''disk full'' @ [CHR 0x0A, CHR 0x0A] @ ''===> errors stack:'' @ [CHR 0x0A]
                  @ ''writeBlock(42, '' @ [CHR 0x22] @ ''cache'' @ [CHR 0x22] @ '')''
                  @ [CHR 0x0A, CHR 0x09] @ ''blk.go:17 ENOSPC'' @ [CHR 0x0A]))"
proof -
  have m: "Error latin1_only example_heap 1 (New ''disk full'') = Some (Inr ''disk full'')"
    by (simp add: New_def ret_def)
  have r: "list_all2 (rendered latin1_only) [frame1] [[''42'', [CHR 0x22] @ ''cache'' @ [CHR 0x22]]]"
    by (simp add: rendered_def frame1_def eval_simps)
  from Frame_Error_chain[OF example_chain_1 m r] example_chain_1 m r show ?thesis
    by (simp add: stack_entry_def frame1_def NewWith_def AppendInt_def digits_def banner_def)
qed

text \<open>
  C2. For a frame in the heap, \<^verbatim>\<open>(*Frame).Summary\<close> is the function \<^verbatim>\<open>Summary\<close> applied to
  its cause; and for a chain of any number of frames over a leaf, if the summary of the
  leaf (its own \<^verbatim>\<open>Summary\<close> if it has the method, its message otherwise) is \<open>r\<close>, then with
  enough fuel \<^verbatim>\<open>(*Frame).Summary\<close> of the outermost frame is \<open>r\<close>: the frames add nothing.
\<close>

theorem Frame_Summary_delegates:
  assumes "frame_chain h (FramePtr p) frs leaf"
  shows "(\<forall>fr k. h p = Some fr \<longrightarrow> Frame_Summary U h (Suc k) p = Summary U h k (Err fr))
       \<and> (\<forall>k r k'. leaf_Summary U h k leaf = Some r \<longrightarrow> k + 2 * length frs \<le> k' \<longrightarrow>
             Frame_Summary U h k' p = Some r)"
proof (intro conjI allI impI)
  fix fr k
  assume "h p = Some fr"
  then show "Frame_Summary U h (Suc k) p = Summary U h k (Err fr)" by simp
next
  fix k r k'
  assume r: "leaf_Summary U h k leaf = Some r" and le: "k + 2 * length frs \<le> k'"
  from assms obtain fr frs' where
    fr: "h p = Some fr" "frs = frs' @ [fr]" "frame_chain h (Err fr) frs' leaf"
    by (auto elim: frame_chain.cases)
  have "\<not> is_Frame leaf" using assms by (induction rule: frame_chain.induct) simp_all
  with r have "Summary U h (Suc k) leaf = Some r" by (simp add: Summary_leaf del: Summary.simps)
  with fr(3) have "Summary U h (Suc k + 2 * length frs') (Err fr) = Some r"
    by (rule Summary_chain)
  with fr(1) have "Frame_Summary U h (Suc (Suc k + 2 * length frs')) p = Some r"
    by (simp del: Summary.simps)
  moreover have "Suc (Suc k + 2 * length frs') \<le> k'" using le fr(2) by simp
  ultimately show "Frame_Summary U h k' p = Some r"
    by (rule Summary_fuel_mono(2)[rotated])
qed

text \<open>Two frames over \<^verbatim>\<open>New("disk full")\<close>: the summary is the message of the leaf.\<close>

theorem Frame_Summary_delegates_witness:
  "frame_chain example_heap (FramePtr 2) [frame1, frame2] (New ''disk full'')
   \<and> example_heap 2 = Some frame2
   \<and> leaf_Summary latin1_only example_heap 1 (New ''disk full'') = Some (Inr ''disk full'')
   \<and> (1::nat) + 2 * length [frame1, frame2] \<le> 5
   \<and> Frame_Summary latin1_only example_heap (Suc 0) 2 = Summary latin1_only example_heap 0 (Err frame2)
   \<and> Frame_Summary latin1_only example_heap 5 2 = Some (Inr ''disk full'')"
proof -
  have l: "leaf_Summary latin1_only example_heap 1 (New ''disk full'') = Some (Inr ''disk full'')"
    by (simp add: leaf_Summary_def New_def ret_def)
  from Frame_Summary_delegates[OF example_chain_2, of latin1_only] example_chain_2 l
  show ?thesis
    by (simp add: example_heap_simps del: Frame_Summary.simps Summary.simps)
qed

text \<open>
  C3. The renderer is not total: on an argument of a defined string type, such as
  \<^verbatim>\<open>type Name string\<close>, the kind is \<^verbatim>\<open>reflect.String\<close> and the type assertion
  \<^verbatim>\<open>arg.(string)\<close> of line 217 panics. This theorem evaluates \<open>appendValue\<close> there.
\<close>

theorem appendValue_named_string_panics:
  "appendValue U b (Some (named_string_value s)) = Inl InterfaceConversion"
  by (simp add: named_string_value_def)

text \<open>
  A value of a defined string type is a value Go can build; on every other value Go can
  build the renderer returns a token.
\<close>

lemma go_value_named_string: "go_value (named_string_value s)"
  by (simp add: go_value_def named_string_value_def)

lemma appendValue_total_otherwise:
  assumes "go_value v" and "Kind v = reflect_String \<longrightarrow> AsString v \<noteq> None"
  shows "\<exists>t. appendValue U b (Some v) = Inr t"
  using assms
  by (cases "Kind v") (auto simp: go_value_def Value_Pointer_def Let_def)

text \<open>
  C4, as stated, bounds the token of a string argument by about 40 characters. The
  string of 32 NUL bytes is not abbreviated, every byte of it is quoted as four
  characters, and the token has 130 characters.
\<close>

theorem appendValue_bound_counterexample:
  "map_sum id length (appendValue latin1_only [] (Some (string_value (replicate 32 (CHR 0x00))))) = Inr 130"
  by (simp add: string_value_def AppendQuote_def quoteLoop_NUL length_concat sum_list_replicate)

text \<open>
  C4, amended. For an argument of the type \<^verbatim>\<open>string\<close> with the value \<open>s\<close> the token is
  \<^verbatim>\<open>strconv.AppendQuote\<close> of the abbreviated text: \<open>s\<close> itself, or its first 16 bytes,
  three dots and its last 16 bytes when \<open>s\<close> is longer than 32 bytes. The abbreviated text
  has at most 35 bytes and the token at most 142; when \<open>s\<close> has only printable ASCII
  characters other than the double quote and the backslash, the token is the abbreviated
  text between two double quotes and has at most 37 bytes. A nil argument renders as
  \<^verbatim>\<open>nil\<close>.
\<close>

theorem appendValue_string:
  assumes "Kind v = reflect_String" and "AsString v = Some s"
  shows "appendValue U b (Some v) = Inr (AppendQuote U b (abbreviated s))
       \<and> length (abbreviated s) \<le> 35
       \<and> length (AppendQuote U [] (abbreviated s)) \<le> 142
       \<and> (list_all plain s \<longrightarrow>
            AppendQuote U b (abbreviated s) = b @ [CHR 0x22] @ abbreviated s @ [CHR 0x22]
            \<and> length (AppendQuote U [] (abbreviated s)) \<le> 37)
       \<and> appendValue U b None = Inr (b @ ''nil'')"
proof -
  have 1: "appendValue U b (Some v) = Inr (AppendQuote U b (abbreviated s))"
    using assms by (simp add: abbreviated_def Let_def)
  have 2: "length (abbreviated s) \<le> 35" by (rule length_abbreviated)
  have 3: "length (AppendQuote U [] (abbreviated s)) \<le> 142"
    using length_AppendQuote[of U "[]" "abbreviated s"] 2 by simp
  have 4: "AppendQuote U b (abbreviated s) = b @ [CHR 0x22] @ abbreviated s @ [CHR 0x22]
           \<and> length (AppendQuote U [] (abbreviated s)) \<le> 37" if "list_all plain s"
  proof -
    have "list_all plain (abbreviated s)" using that by (rule plain_abbreviated)
    then have "AppendQuote U x (abbreviated s) = x @ [CHR 0x22] @ abbreviated s @ [CHR 0x22]" for x
      by (simp add: AppendQuote_def quoteLoop_plain)
    with 2 show ?thesis by simp
  qed
  from 1 2 3 4 show ?thesis by simp
qed

text \<open>The argument "cache" of the example.\<close>

theorem appendValue_string_witness:
  "Kind (string_value ''cache'') = reflect_String \<and> AsString (string_value ''cache'') = Some ''cache''
   \<and> list_all plain ''cache''
   \<and> appendValue latin1_only [] (Some (string_value ''cache'')) = Inr ([CHR 0x22] @ ''cache'' @ [CHR 0x22])"
proof -
  have k: "Kind (string_value ''cache'') = reflect_String" by (simp add: string_value_def)
  have a: "AsString (string_value ''cache'') = Some ''cache''" by (simp add: string_value_def)
  have p: "list_all plain ''cache''" by (simp add: plain_def)
  from appendValue_string[OF k a, of latin1_only "[]"] k a p show ?thesis
    by (simp add: abbreviated_def)
qed

text \<open>
  C5. \<^verbatim>\<open>List.Error\<close> returns the empty string for the empty list, is the \<^verbatim>\<open>Error()\<close> of the
  element for a list of one element, and for a list of two or more elements whose
  \<^verbatim>\<open>Error()\<close> return the messages \<open>ms\<close> it returns the messages joined with a newline,
  in the order of the list. \<^verbatim>\<open>List.Summary\<close> does the same with the function \<^verbatim>\<open>Summary\<close>
  in place of \<^verbatim>\<open>Error()\<close>.
\<close>

theorem List_Error_Summary_arity:
  "List_Error U h (Suc k) [] = Some (Inr [])
   \<and> List_Error U h (Suc k) [e] = Error U h k e
   \<and> (2 \<le> length p \<longrightarrow> list_all2 (\<lambda>e m. Error U h k e = Some (Inr m)) p ms \<longrightarrow>
        List_Error U h (Suc k) p = Some (Inr (Join ms [CHR 0x0A])))
   \<and> List_Summary U h (Suc k) [] = Some (Inr [])
   \<and> List_Summary U h (Suc k) [e] = Summary U h k e
   \<and> (2 \<le> length p \<longrightarrow> list_all2 (\<lambda>e m. Summary U h k e = Some (Inr m)) p ms \<longrightarrow>
        List_Summary U h (Suc k) p = Some (Inr (Join ms [CHR 0x0A])))"
  by (simp add: List_Error_unfold List_Summary_unfold for_each_all2 and_then_simps ret_def
      del: List_Error.simps List_Summary.simps)

text \<open>A list of two errors; in the summary the frame is stripped of its stack.\<close>

theorem List_Error_Summary_arity_witness:
  "2 \<le> length [New ''a'', NotFoundPtr (Some \<lparr>Category = ''key''\<rparr>)]
   \<and> list_all2 (\<lambda>e m. Error latin1_only example_heap 1 e = Some (Inr m))
        [New ''a'', NotFoundPtr (Some \<lparr>Category = ''key''\<rparr>)] [''a'', ''key not found'']
   \<and> list_all2 (\<lambda>e m. Summary latin1_only example_heap 4 e = Some (Inr m))
        [FramePtr 1, NotFoundPtr (Some \<lparr>Category = ''key''\<rparr>)] [''disk full'', ''key not found'']
   \<and> List_Error latin1_only example_heap (Suc 1) [New ''a'', NotFoundPtr (Some \<lparr>Category = ''key''\<rparr>)]
       = Some (Inr (''a'' @ [CHR 0x0A] @ ''key not found''))
   \<and> List_Summary latin1_only example_heap (Suc 4) [FramePtr 1, NotFoundPtr (Some \<lparr>Category = ''key''\<rparr>)]
       = Some (Inr (''disk full'' @ [CHR 0x0A] @ ''key not found''))"
proof -
  have e: "list_all2 (\<lambda>e m. Error latin1_only example_heap 1 e = Some (Inr m))
        [New ''a'', NotFoundPtr (Some \<lparr>Category = ''key''\<rparr>)] [''a'', ''key not found'']"
    by (simp add: New_def ret_def NotFound_Error_def)
  have four: "(4::nat) = Suc (Suc (Suc (Suc 0)))" by simp
  have h1: "example_heap (Suc 0) = Some frame1" using example_heap_simps(1) by simp
  have "Summary latin1_only example_heap (Suc (Suc (Suc (Suc 0)))) (FramePtr 1) = Some (Inr ''disk full'')"
    by (simp add: h1 example_Err New_def ret_def)
  moreover have "Summary latin1_only example_heap (Suc (Suc (Suc (Suc 0))))
      (NotFoundPtr (Some \<lparr>Category = ''key''\<rparr>)) = Some (Inr ''key not found'')"
    by (simp add: NotFound_Error_def)
  ultimately have s: "list_all2 (\<lambda>e m. Summary latin1_only example_heap 4 e = Some (Inr m))
        [FramePtr 1, NotFoundPtr (Some \<lparr>Category = ''key''\<rparr>)] [''disk full'', ''key not found'']"
    unfolding four by (simp del: Summary.simps)
  from List_Error_Summary_arity[of latin1_only example_heap 1 "New ''a''"
      "[New ''a'', NotFoundPtr (Some \<lparr>Category = ''key''\<rparr>)]" "[''a'', ''key not found'']"]
    List_Error_Summary_arity[of latin1_only example_heap 4 "New ''a''"
      "[FramePtr 1, NotFoundPtr (Some \<lparr>Category = ''key''\<rparr>)]" "[''disk full'', ''key not found'']"]
    e s
  show ?thesis
    by (simp del: List_Error.simps List_Summary.simps Error.simps Summary.simps)
qed

text \<open>
  C6. \<^verbatim>\<open>List.ToError\<close> returns the nil interface for the empty list, the element itself
  for a list of one element, and the list itself for a list of two or more elements.
\<close>

theorem List_ToError_arity:
  "List_ToError [] = nil \<and> List_ToError [e] = e \<and> (2 \<le> length p \<longrightarrow> List_ToError p = ListVal p)"
  by (simp add: List_ToError_def)

text \<open>A list of two errors is returned as it is.\<close>

theorem List_ToError_arity_witness:
  "2 \<le> length [New ''a'', New ''b''] \<and> List_ToError [New ''a'', New ''b''] = ListVal [New ''a'', New ''b'']"
  using List_ToError_arity[of "New ''a''" "[New ''a'', New ''b'']"] by simp

text \<open>
  C7, as stated, has \<^verbatim>\<open>IsNotFound\<close> return true for a \<^verbatim>\<open>*NotFound\<close> and for a
  \<^verbatim>\<open>*NotFound\<close> wrapped in frames, and false for every other chain. An error of a foreign
  type whose \<^verbatim>\<open>Unwrap\<close> returns a \<^verbatim>\<open>*NotFound\<close> is neither a \<^verbatim>\<open>*NotFound\<close> nor a frame, and
  \<^verbatim>\<open>IsNotFound\<close> returns true for it.
\<close>

theorem IsNotFound_only_Frames_counterexample:
  "IsNotFound example_heap wrapped_NotFound = Some (Inr True)
   \<and> \<not> is_NotFound wrapped_NotFound \<and> \<not> is_Frame wrapped_NotFound"
proof -
  have "IsNotFound example_heap (NotFoundPtr (Some \<lparr>Category = ''key''\<rparr>)) = Some (Inr True)"
    by (subst IsNotFound.simps) simp
  then have "IsNotFound example_heap wrapped_NotFound = Some (Inr True)"
    unfolding wrapped_NotFound_def by (subst IsNotFound.simps) simp
  then show ?thesis by (simp add: wrapped_NotFound_def)
qed

text \<open>
  C7, amended. \<^verbatim>\<open>IsNotFound\<close> follows \<^verbatim>\<open>Unwrap\<close> as long as the value has the method,
  whatever its type, and returns whether the final value is a \<^verbatim>\<open>*NotFound\<close>: true when
  the chain ends in a \<^verbatim>\<open>*NotFound\<close>, false when it ends in anything else. In particular it
  returns true for a \<^verbatim>\<open>*NotFound\<close> wrapped in any number of frames (none included).
\<close>

theorem IsNotFound_final:
  "(unwraps_to h err final \<longrightarrow> IsNotFound h err = Some (Inr (is_NotFound final)))
   \<and> (frame_chain h err frs (NotFoundPtr q) \<longrightarrow> IsNotFound h err = Some (Inr True))"
proof (intro conjI impI)
  assume "unwraps_to h err final"
  then show "IsNotFound h err = Some (Inr (is_NotFound final))" by (rule IsNotFound_unwraps_to)
next
  assume "frame_chain h err frs (NotFoundPtr q)"
  then have "unwraps_to h err (NotFoundPtr q)" by (rule frame_chain_unwraps_to) simp
  then show "IsNotFound h err = Some (Inr True)" by (simp add: IsNotFound_unwraps_to)
qed

text \<open>The foreign wrapper and the chain of the frames 4 and 3.\<close>

theorem IsNotFound_final_witness:
  "unwraps_to example_heap wrapped_NotFound (NotFoundPtr (Some \<lparr>Category = ''key''\<rparr>))
   \<and> frame_chain example_heap (FramePtr 4) [frame3, frame4] (NotFoundPtr (Some \<lparr>Category = ''key''\<rparr>))
   \<and> IsNotFound example_heap wrapped_NotFound = Some (Inr True)
   \<and> IsNotFound example_heap (FramePtr 4) = Some (Inr True)"
proof -
  have "unwraps_to example_heap (NotFoundPtr (Some \<lparr>Category = ''key''\<rparr>)) (NotFoundPtr (Some \<lparr>Category = ''key''\<rparr>))"
    by (rule unwraps_to.final) simp
  then have u: "unwraps_to example_heap wrapped_NotFound (NotFoundPtr (Some \<lparr>Category = ''key''\<rparr>))"
    unfolding wrapped_NotFound_def by (rule unwraps_to.step[rotated]) simp
  from IsNotFound_final[of example_heap wrapped_NotFound "NotFoundPtr (Some \<lparr>Category = ''key''\<rparr>)"]
    IsNotFound_final[of example_heap "FramePtr 4" _ "[frame3, frame4]" "Some \<lparr>Category = ''key''\<rparr>"]
    u example_chain_4
  show ?thesis by simp
qed

text \<open>
  C8. \<^verbatim>\<open>Err\<close> returns an error that is not a frame unchanged, also when the error has a
  method \<^verbatim>\<open>Unwrap\<close>; and for a chain of frames over a leaf it returns the leaf, the
  innermost cause that is not a frame.
\<close>

theorem Err_func_innermost:
  "(\<not> is_Frame e \<longrightarrow> Err_func h e = Some (Inr e))
   \<and> (frame_chain h e frs leaf \<longrightarrow> Err_func h e = Some (Inr leaf) \<and> \<not> is_Frame leaf)"
  using Err_func_chain[of h e frs leaf] Err_func_chain[OF frame_chain.leaf, of e h] frame_chain_leaf[of h e frs leaf]
  by blast

text \<open>The foreign wrapper is returned as it is; the chain of the frames 2 and 1 gives its leaf.\<close>

theorem Err_func_innermost_witness:
  "\<not> is_Frame wrapped_NotFound
   \<and> frame_chain example_heap (FramePtr 2) [frame1, frame2] (New ''disk full'')
   \<and> Err_func example_heap wrapped_NotFound = Some (Inr wrapped_NotFound)
   \<and> Err_func example_heap (FramePtr 2) = Some (Inr (New ''disk full''))"
  using Err_func_innermost[of wrapped_NotFound example_heap]
    Err_func_innermost[of "FramePtr 2" example_heap "[frame1, frame2]" "New ''disk full''"]
    example_chain_2
  by (simp add: wrapped_NotFound_def)

text \<open>
  C9. In a finite heap whose cause chains are acyclic, \<open>errorDetail\<close> and
  \<^verbatim>\<open>(*Frame).Error\<close> terminate on every frame: there is an amount of fuel from which on
  they give one and the same result. The result is a string or a panic; a panic is what
  a nil cause gives, so that for termination the causes need not be present.
\<close>

theorem errorDetail_terminates:
  assumes "finite (dom h)" and "acyclic (cause_rel h)"
  shows "\<exists>k r r'. \<forall>k' \<ge> k. errorDetail U h k' b p = Some r \<and> Frame_Error U h k' p = Some r'"
proof -
  have g: "grounded h (FramePtr p)" using assms by (rule acyclic_grounded)
  obtain k r where k: "errorDetail U h k b p = Some r"
    using grounded_terminates[OF g, of U] by blast
  obtain j r' where j: "errorDetail U h j [] p = Some r'"
    using grounded_terminates[OF g, of U] by blast
  then have j': "Frame_Error U h (Suc j) p = Some r'" by (simp del: errorDetail.simps)
  have "errorDetail U h k' b p = Some r \<and> Frame_Error U h k' p = Some r'" if "max k (Suc j) \<le> k'" for k'
    using that k j' Error_fuel_mono(3)[of k k' U h b p r] Error_fuel_mono(2)[of "Suc j" k' U h p r']
    by simp
  then show ?thesis by blast
qed

text \<open>The example heap, at the frame 2.\<close>

theorem errorDetail_terminates_witness:
  "finite (dom example_heap) \<and> acyclic (cause_rel example_heap)
   \<and> (\<exists>k r r'. \<forall>k' \<ge> k. errorDetail latin1_only example_heap k' [] 2 = Some r
                          \<and> Frame_Error latin1_only example_heap k' 2 = Some r')"
  using errorDetail_terminates[OF example_finite example_acyclic, of latin1_only "[]" 2]
    example_finite example_acyclic
  by simp

text \<open>
  C10. \<^verbatim>\<open>IsNotFound\<close> returns false for every list, whatever its elements, and so for
  the list of two or more elements that \<^verbatim>\<open>List.ToError\<close> returns.
\<close>

theorem IsNotFound_List:
  "IsNotFound h (ListVal p) = Some (Inr False)
   \<and> (2 \<le> length p \<longrightarrow> IsNotFound h (List_ToError p) = Some (Inr False))"
proof -
  have "IsNotFound h (ListVal p) = Some (Inr False)" by (subst IsNotFound.simps) simp
  then show ?thesis by (simp add: List_ToError_def)
qed

text \<open>A list that holds a \<^verbatim>\<open>*NotFound\<close> and a frame over a \<^verbatim>\<open>*NotFound\<close>.\<close>

theorem IsNotFound_List_witness:
  "2 \<le> length [NotFoundPtr (Some \<lparr>Category = ''key''\<rparr>), FramePtr 4]
   \<and> IsNotFound example_heap (List_ToError [NotFoundPtr (Some \<lparr>Category = ''key''\<rparr>), FramePtr 4])
       = Some (Inr False)"
  using IsNotFound_List[of example_heap "[NotFoundPtr (Some \<lparr>Category = ''key''\<rparr>), FramePtr 4]"]
  by simp

end
